theory Spec2Isabelle
  imports Complex_Main "HOL-Library.Multiset" "HOL-Library.Word" "HOL-Library.AList"
begin

section \<open>Python exceptions and effects\<close>

text \<open>
  The exceptions the modelled code can raise.  \<open>SaverNotCreated\<close> is the plain
  \<open>Exception("Tensor saver not created yet")\<close> of \<open>get_tensor_saver\<close>.
\<close>

datatype py_error = IndexError | KeyError | TypeError | RuntimeError | SaverNotCreated

definition ebind :: "py_error + 'a \<Rightarrow> ('a \<Rightarrow> py_error + 'b) \<Rightarrow> py_error + 'b" where
  "ebind m f = (case m of Inl e \<Rightarrow> Inl e | Inr v \<Rightarrow> f v)"

fun emap :: "('a \<Rightarrow> py_error + 'b) \<Rightarrow> 'a list \<Rightarrow> py_error + 'b list" where
  "emap f [] = Inr []"
| "emap f (x # xs) =
     (case f x of Inl e \<Rightarrow> Inl e
      | Inr y \<Rightarrow> (case emap f xs of Inl e \<Rightarrow> Inl e | Inr ys \<Rightarrow> Inr (y # ys)))"

section \<open>utils/tensor_saver.py\<close>

record TensorSaver =
  base_dir :: string
  iteration :: int

text \<open>
  One entry per \<open>numpy.save\<close>: the base directory, the iteration directory, the scope,
  the tensor name and the shape that ends the file name.
\<close>

record dump =
  dump_base :: string
  dump_iter :: int
  dump_scope :: "string option"
  dump_name :: string
  dump_shape :: "nat list"

text \<open>
  The process state the dumping code reads and writes: the module global
  \<open>tensor_saver\<close> and the files written so far.
\<close>

record world =
  tensor_saver :: "TensorSaver option"
  files :: "dump list"

type_synonym 'a io = "world \<Rightarrow> (py_error + 'a) \<times> world"

definition return_io :: "'a \<Rightarrow> 'a io" where
  "return_io v w = (Inr v, w)"

definition bind_io :: "'a io \<Rightarrow> ('a \<Rightarrow> 'b io) \<Rightarrow> 'b io" where
  "bind_io m f w = (case m w of (Inl e, w') \<Rightarrow> (Inl e, w') | (Inr v, w') \<Rightarrow> f v w')"

definition lift_io :: "py_error + 'a \<Rightarrow> 'a io" where
  "lift_io r w = (r, w)"

text \<open>
  Python's binding of a call to a \<open>def\<close> with the parameters \<open>params\<close>, the first
  \<open>nreq\<close> of them without a default: \<open>npos\<close> positional arguments and the keyword
  arguments \<open>kws\<close>.  Too many positional arguments, an unexpected keyword, a parameter
  given twice and a missing required parameter are each a \<open>TypeError\<close>.
\<close>

definition bind_args :: "string list \<Rightarrow> nat \<Rightarrow> nat \<Rightarrow> string list \<Rightarrow> py_error + unit" where
  "bind_args params nreq npos kws =
     (if length params < npos then Inl TypeError
      else if \<exists>k \<in> set kws. k \<notin> set params then Inl TypeError
      else if \<not> distinct kws \<or> (\<exists>k \<in> set kws. k \<in> set (take npos params)) then Inl TypeError
      else if \<exists>p \<in> set (take nreq params). p \<notin> set (take npos params) \<union> set kws
        then Inl TypeError
      else Inr ())"

text \<open>\<open>def step(self, iteration=None)\<close>: \<open>if iteration:\<close> is false for \<open>None\<close> and for 0.\<close>

definition step :: "TensorSaver \<Rightarrow> int option \<Rightarrow> TensorSaver" where
  "step self iter =
     (case iter of
        None \<Rightarrow> self\<lparr>iteration := iteration self + 1\<rparr>
      | Some k \<Rightarrow> if k \<noteq> 0 then self\<lparr>iteration := k\<rparr>
                  else self\<lparr>iteration := iteration self + 1\<rparr>)"

definition save_params :: "string list" where
  "save_params = [''tensor'', ''tensor_name'', ''scope'', ''save_grad'']"

definition create_params :: "string list" where
  "create_params = [''base_dir'', ''iteration'']"

text \<open>
  \<open>def save(self, tensor, tensor_name, scope=None, save_grad=False)\<close>, the body once
  the call is bound.  An empty scope is falsy and adds no directory.  Every call in the
  sources leaves \<open>save_grad\<close> false, so the gradient hook is not part of the model.
\<close>

definition save :: "TensorSaver \<Rightarrow> nat list \<Rightarrow> string \<Rightarrow> string option \<Rightarrow> unit io" where
  "save self shape tensor_name scope w =
     (Inr (), w\<lparr>files := files w @
        [\<lparr>dump_base = base_dir self, dump_iter = iteration self,
          dump_scope = (if scope = Some [] then None else scope),
          dump_name = tensor_name, dump_shape = shape\<rparr>]\<rparr>)"

text \<open>
  \<open>def create_tensor_saver(base_dir, iteration=0)\<close> with the call's argument form.
\<close>

definition create_tensor_saver :: "nat \<Rightarrow> string list \<Rightarrow> string \<Rightarrow> int \<Rightarrow> unit io" where
  "create_tensor_saver npos kws dir iter w =
     (case bind_args create_params 1 npos kws of
        Inl e \<Rightarrow> (Inl e, w)
      | Inr _ \<Rightarrow> (Inr (), w\<lparr>tensor_saver := Some \<lparr>base_dir = dir, iteration = iter\<rparr>\<rparr>))"

definition get_tensor_saver :: "TensorSaver io" where
  "get_tensor_saver w =
     (case tensor_saver w of None \<Rightarrow> (Inl SaverNotCreated, w) | Some s \<Rightarrow> (Inr s, w))"

text \<open>
  A call \<open>get_tensor_saver().save(...)\<close>: Python evaluates \<open>get_tensor_saver()\<close>, then
  the argument expressions (\<open>tensor\<close> is the outcome of evaluating the tensor
  argument, its shape when it succeeds), then binds the call, then runs the body.
\<close>

definition saver_save ::
  "(py_error + nat list) \<Rightarrow> nat \<Rightarrow> string list \<Rightarrow> string \<Rightarrow> string option \<Rightarrow> unit io" where
  "saver_save tensor npos kws tensor_name scope =
     bind_io get_tensor_saver (\<lambda>s.
     bind_io (lift_io tensor) (\<lambda>shape.
     bind_io (lift_io (bind_args save_params 2 npos kws)) (\<lambda>_.
       save s shape tensor_name scope)))"

section \<open>The drivers' calls of the tensor saver\<close>

text \<open>
  \<open>do_train\<close> (engine/trainer.py): everything before line 69 is logging and timing; the
  first effect on the saver is the call of lines 69 to 74, and \<open>rest\<close> is the
  remainder of the function.
\<close>

definition do_train :: "int \<Rightarrow> 'a io \<Rightarrow> 'a io" where
  "do_train start_iter rest =
     bind_io (create_tensor_saver 0 [''training'', ''base_dir'', ''iteration'', ''max_iter'']
                ''train_dump'' start_iter) (\<lambda>_. rest)"

text \<open>\<open>inference\<close> (engine/inference.py), lines 114 to 119, likewise.\<close>

definition inference :: "'a io \<Rightarrow> 'a io" where
  "inference rest =
     bind_io (create_tensor_saver 0 [''training'', ''base_dir'', ''iteration'', ''max_iter'']
                ''inference_dump'' 0) (\<lambda>_. rest)"

section \<open>Tensor operations\<close>

text \<open>
  Modelled from the spec: the top-k operation of the tensor library, which is not part of
  the sources.  It selects the \<open>k\<close> highest scores, sorted descending by score, ties
  broken by original index order (stable), and returns the values with their indices.
  Asking for more elements than the vector has is a \<open>RuntimeError\<close>.
\<close>

definition argsort_desc :: "real list \<Rightarrow> nat list" where
  "argsort_desc xs = map fst (sort_key (\<lambda>p. - snd p) (enumerate 0 xs))"

definition topk :: "real list \<Rightarrow> nat \<Rightarrow> py_error + real list \<times> nat list" where
  "topk xs k =
     (if length xs < k then Inl RuntimeError
      else let idx = take k (argsort_desc xs) in Inr (map (\<lambda>i. xs ! i) idx, idx))"

text \<open>\<open>topk(k, dim=1)\<close> on a matrix given by its rows.\<close>

definition topk_rows :: "real list list \<Rightarrow> nat \<Rightarrow> py_error + real list list \<times> nat list list" where
  "topk_rows rows k = ebind (emap (\<lambda>r. topk r k) rows) (\<lambda>rs. Inr (map fst rs, map snd rs))"

text \<open>\<open>t[i, :]\<close>: row \<open>i\<close> of a matrix, an \<open>IndexError\<close> when there is no such row.\<close>

definition row :: "'a list list \<Rightarrow> nat \<Rightarrow> py_error + 'a list" where
  "row t i = (if i < length t then Inr (t ! i) else Inl IndexError)"

text \<open>\<open>xs[idx]\<close> with an index tensor and with a \<open>uint8\<close> mask.\<close>

definition take_idx :: "'a list \<Rightarrow> nat list \<Rightarrow> py_error + 'a list" where
  "take_idx xs idx =
     (if \<forall>i \<in> set idx. i < length xs then Inr (map (\<lambda>i. xs ! i) idx) else Inl IndexError)"

definition take_mask :: "'a list \<Rightarrow> 8 word list \<Rightarrow> py_error + 'a list" where
  "take_mask xs m =
     (if length m = length xs then Inr (map fst (filter (\<lambda>p. snd p \<noteq> 0) (zip xs m)))
      else Inl IndexError)"

text \<open>
  \<open>t[batch_idx, topk_idx]\<close> with \<open>batch_idx\<close> of shape \<open>[N, 1]\<close> and \<open>topk_idx\<close> of
  shape \<open>[N, k]\<close>: entry \<open>(i, j)\<close> of the result is \<open>t[batch_idx[i], topk_idx[i][j]]\<close>.
\<close>

definition index_rows :: "'a list list \<Rightarrow> nat list \<Rightarrow> nat list list \<Rightarrow> py_error + 'a list list" where
  "index_rows t batch_idx idx =
     (if length batch_idx \<noteq> length idx then Inl IndexError
      else emap (\<lambda>(b, js). ebind (row t b) (\<lambda>r. take_idx r js)) (zip batch_idx idx))"

text \<open>\<open>xs.reshape(N, -1, 4)\<close> and \<open>xs.view(N, -1, 4)\<close> of a list of 4-vectors.\<close>

definition view_rows :: "nat \<Rightarrow> 'a list \<Rightarrow> py_error + 'a list list" where
  "view_rows N xs =
     (if N = 0 \<or> length xs mod N \<noteq> 0 then Inl RuntimeError
      else Inr (map (\<lambda>i. take (length xs div N) (drop (i * (length xs div N)) xs)) [0..<N]))"

text \<open>\<open>inds_mask[inds_sorted] = 1\<close>.\<close>

definition scatter_ones :: "8 word list \<Rightarrow> nat list \<Rightarrow> 8 word list" where
  "scatter_ones m idx = foldl (\<lambda>m i. m[i := 1]) m idx"

text \<open>\<open>xs.split(sizes)\<close>: the sizes must add up to the length.\<close>

fun split_sizes :: "'a list \<Rightarrow> nat list \<Rightarrow> 'a list list" where
  "split_sizes xs [] = []"
| "split_sizes xs (n # ns) = take n xs # split_sizes (drop n xs) ns"

definition tensor_split :: "'a list \<Rightarrow> nat list \<Rightarrow> py_error + 'a list list" where
  "tensor_split xs sizes =
     (if sum_list sizes = length xs then Inr (split_sizes xs sizes) else Inl RuntimeError)"

text \<open>\<open>torch.cat\<close> of a list of tensors: an empty list is a \<open>RuntimeError\<close>.\<close>

definition tensor_cat :: "'a list list \<Rightarrow> py_error + 'a list" where
  "tensor_cat ts = (if ts = [] then Inl RuntimeError else Inr (concat ts))"

text \<open>\<open>"{}".format(n)\<close> for a natural number.\<close>

fun str_nat :: "nat \<Rightarrow> string" where
  "str_nat n =
     (if n < 10 then [char_of (48 + n)] else str_nat (n div 10) @ [char_of (48 + n mod 10)])"

declare str_nat.simps [simp del]

section \<open>Box collections\<close>

type_synonym box = "real \<times> real \<times> real \<times> real"

text \<open>
  Modelled from the spec: the Box Collection (structures/bounding_box.py and
  structures/boxlist_ops.py are not part of the sources).  A \<open>BoxList\<close> owns the boxes
  of one image, the image size (width, height), the mode tag and the per-box fields by
  name, in insertion order.
\<close>

record BoxList =
  bbox :: "box list"
  image_size :: "int \<times> int"
  mode :: string
  extra_fields :: "(string \<times> real list) list"

definition new_BoxList :: "box list \<Rightarrow> int \<times> int \<Rightarrow> string \<Rightarrow> BoxList" where
  "new_BoxList b sz m = \<lparr>bbox = b, image_size = sz, mode = m, extra_fields = []\<rparr>"

definition len :: "BoxList \<Rightarrow> nat" where
  "len bl = length (bbox bl)"

definition fields_of :: "BoxList \<Rightarrow> string list" where
  "fields_of bl = map fst (extra_fields bl)"

text \<open>
  Modelled from the spec: the fields of a Box Collection, not part of the sources, are
  set and read by name; reading a field that is not there is a \<open>KeyError\<close>.
\<close>

definition add_field :: "BoxList \<Rightarrow> string \<Rightarrow> real list \<Rightarrow> BoxList" where
  "add_field bl name data = bl\<lparr>extra_fields := AList.update name data (extra_fields bl)\<rparr>"

definition get_field :: "BoxList \<Rightarrow> string \<Rightarrow> py_error + real list" where
  "get_field bl name =
     (case map_of (extra_fields bl) name of None \<Rightarrow> Inl KeyError | Some d \<Rightarrow> Inr d)"

text \<open>
  Modelled from the spec: \<open>BoxList.__getitem__\<close>, not part of the sources, with an
  index tensor and with a mask: reordering or filtering the collection reorders or
  filters every field identically.
\<close>

definition getitem_index :: "BoxList \<Rightarrow> nat list \<Rightarrow> py_error + BoxList" where
  "getitem_index bl idx =
     ebind (take_idx (bbox bl) idx) (\<lambda>b.
     ebind (emap (\<lambda>(n, d). ebind (take_idx d idx) (\<lambda>d'. Inr (n, d'))) (extra_fields bl)) (\<lambda>fs.
       Inr (bl\<lparr>bbox := b, extra_fields := fs\<rparr>)))"

definition getitem_mask :: "BoxList \<Rightarrow> 8 word list \<Rightarrow> py_error + BoxList" where
  "getitem_mask bl m =
     ebind (take_mask (bbox bl) m) (\<lambda>b.
     ebind (emap (\<lambda>(n, d). ebind (take_mask d m) (\<lambda>d'. Inr (n, d'))) (extra_fields bl)) (\<lambda>fs.
       Inr (bl\<lparr>bbox := b, extra_fields := fs\<rparr>)))"

text \<open>
  Modelled from the spec: \<open>copy_with_fields\<close>, not part of the sources, keeps the boxes,
  the size and the mode and, of the fields, only the named ones.
\<close>

definition copy_with_fields :: "BoxList \<Rightarrow> string list \<Rightarrow> py_error + BoxList" where
  "copy_with_fields bl names =
     ebind (emap (\<lambda>n. ebind (get_field bl n) (\<lambda>d. Inr (n, d))) names) (\<lambda>fs.
       Inr (bl\<lparr>extra_fields := fs\<rparr>))"

text \<open>
  Modelled from the spec: \<open>cat_boxlist\<close>, not part of the sources, joins the boxes and
  every field of the parts in order; a field must be present in all parts.
\<close>

definition cat_boxlist :: "BoxList list \<Rightarrow> py_error + BoxList" where
  "cat_boxlist bls =
     (case bls of
        [] \<Rightarrow> Inl IndexError
      | b0 # _ \<Rightarrow>
          ebind (emap (\<lambda>n. ebind (emap (\<lambda>b. get_field b n) bls) (\<lambda>ds. Inr (n, concat ds)))
                   (remdups (concat (map fields_of bls)))) (\<lambda>fs.
            Inr (b0\<lparr>bbox := concat (map bbox bls), extra_fields := fs\<rparr>)))"

text \<open>
  Modelled from the spec: \<open>clip_to_image(remove_empty=False)\<close>, not part of the
  sources, moves every coordinate into \<open>[0, width] \<times> [0, height]\<close> and discards
  nothing.
\<close>

definition clip_box :: "int \<times> int \<Rightarrow> box \<Rightarrow> box" where
  "clip_box sz b =
     (case (sz, b) of ((w, h), (x1, y1, x2, y2)) \<Rightarrow>
        (min (max x1 0) (real_of_int w), min (max y1 0) (real_of_int h),
         min (max x2 0) (real_of_int w), min (max y2 0) (real_of_int h)))"

definition clip_to_image :: "BoxList \<Rightarrow> BoxList" where
  "clip_to_image bl = bl\<lparr>bbox := map (clip_box (image_size bl)) (bbox bl)\<rparr>"

text \<open>
  Modelled from the spec: \<open>remove_small_boxes\<close>, not part of the sources, discards the
  boxes whose width or height is below \<open>min_size\<close>; it filters the collection by the
  mask of the boxes that stay.
\<close>

definition box_width :: "box \<Rightarrow> real" where
  "box_width b = (case b of (x1, y1, x2, y2) \<Rightarrow> x2 - x1)"

definition box_height :: "box \<Rightarrow> real" where
  "box_height b = (case b of (x1, y1, x2, y2) \<Rightarrow> y2 - y1)"

definition large_enough :: "int \<Rightarrow> box \<Rightarrow> bool" where
  "large_enough ms b \<longleftrightarrow> real_of_int ms \<le> box_width b \<and> real_of_int ms \<le> box_height b"

definition remove_small_boxes :: "BoxList \<Rightarrow> int \<Rightarrow> py_error + BoxList" where
  "remove_small_boxes bl ms =
     getitem_mask bl (map (\<lambda>b. if large_enough ms b then 1 else 0) (bbox bl))"

text \<open>
  Modelled from the spec: the box codec's \<open>decode\<close> (modeling/box_coder.py is not part
  of the sources) transforms each delta with its reference box, pair by pair; the
  transform of one pair is the parameter \<open>decode1\<close>.
\<close>

definition decode :: "('d \<Rightarrow> box \<Rightarrow> box) \<Rightarrow> 'd list \<Rightarrow> box list \<Rightarrow> box list" where
  "decode decode1 rel_codes boxes = map (\<lambda>(d, b). decode1 d b) (zip rel_codes boxes)"

section \<open>modeling/rpn/inference.py\<close>

type_synonym delta = "real \<times> real \<times> real \<times> real"

text \<open>
  The fields of \<open>RPNPostProcessor\<close> that \<open>__init__\<close> sets, and the \<open>training\<close> flag
  of the module.  The budgets are counts.
\<close>

record RPNPostProcessor =
  pre_nms_top_n :: nat
  post_nms_top_n :: nat
  nms_thresh :: real
  min_size :: int
  fpn_post_nms_top_n :: nat
  fpn_post_nms_per_batch :: bool
  training :: bool

text \<open>
  The operations the decoder takes from outside the sources: the elementwise sigmoid of
  the tensor library, the codec's transform of one delta and its reference box, and
  \<open>boxlist_nms\<close> with its threshold, its maximum and its dump callback.
\<close>

record ops =
  sigmoid :: "real \<Rightarrow> real"
  decode1 :: "delta \<Rightarrow> box \<Rightarrow> box"
  boxlist_nms :: "BoxList \<Rightarrow> real \<Rightarrow> nat \<Rightarrow> (nat list \<Rightarrow> unit io) \<Rightarrow> BoxList io"

text \<open>
  The objectness tensor of one level, of shape \<open>[N, A, H, W]\<close>, as
  \<open>permute_and_flatten(objectness, N, A, 1, H, W).view(N, -1)\<close> lays it out: \<open>N\<close> rows
  of \<open>A * H * W\<close> logits.  The regression tensor of the level is taken the same way, as
  the \<open>N\<close> rows of \<open>A * H * W\<close> deltas that \<open>permute_and_flatten\<close> returns.
\<close>

record objectness_tensor =
  dim_A :: nat
  dim_H :: nat
  dim_W :: nat
  logits :: "real list list"

definition kw4 :: "string list" where
  "kw4 = [''tensor'', ''tensor_name'', ''scope'', ''save_grad'']"

definition kw_level :: "string list" where
  "kw_level = [''level'', ''im_idx'']"

text \<open>Lines 89 to 97: the sigmoid and the top-k pre-filter of every row.\<close>

definition prefilter ::
  "RPNPostProcessor \<Rightarrow> (real \<Rightarrow> real) \<Rightarrow> objectness_tensor
     \<Rightarrow> py_error + real list list \<times> nat list list" where
  "prefilter self sig objectness =
     (let scores = map (map sig) (logits objectness);
          num_anchors = dim_A objectness * dim_H objectness * dim_W objectness;
          k = min (pre_nms_top_n self) num_anchors
      in topk_rows scores k)"

text \<open>Lines 98 to 109: rows 0 and 1 of the index tensor are dumped.\<close>

definition dump_topk_idx :: "nat \<Rightarrow> nat list list \<Rightarrow> unit io" where
  "dump_topk_idx level topk_idx =
     bind_io (saver_save (ebind (row topk_idx 0) (\<lambda>r. Inr [length r])) 0 kw4
                (''topk_idx_img_'' @ str_nat 0 @ ''_layer_'' @ str_nat level) (Some ''rpn''))
       (\<lambda>_. saver_save (ebind (row topk_idx 1) (\<lambda>r. Inr [length r])) 0 kw4
                (''topk_idx_img_'' @ str_nat 1 @ ''_layer_'' @ str_nat level) (Some ''rpn''))"

text \<open>
  Lines 110 to 115: the deltas and the anchors of every image, gathered with the index
  rows; the result is what lines 129 to 131 pass to the codec.
\<close>

definition gather_for_decode ::
  "nat \<Rightarrow> BoxList list \<Rightarrow> delta list list \<Rightarrow> nat list list
     \<Rightarrow> py_error + delta list list \<times> box list list" where
  "gather_for_decode N anchors box_regression topk_idx =
     (let batch_idx = [0..<N] in
      ebind (index_rows box_regression batch_idx topk_idx) (\<lambda>box_regression.
      ebind (tensor_cat (map bbox anchors)) (\<lambda>concat_anchors.
      ebind (view_rows N concat_anchors) (\<lambda>concat_anchors.
      ebind (index_rows concat_anchors batch_idx topk_idx) (\<lambda>concat_anchors.
        Inr (box_regression, concat_anchors))))))"

text \<open>Lines 117 to 139: the dumps around the decoding, and the view per image.\<close>

definition decode_proposals ::
  "(delta \<Rightarrow> box \<Rightarrow> box) \<Rightarrow> nat \<Rightarrow> delta list list \<Rightarrow> box list list \<Rightarrow> box list list io" where
  "decode_proposals dec N box_regression concat_anchors =
     bind_io (saver_save (Inr [length (concat concat_anchors), 4]) 0 kw4
                ''ref_boxes'' (Some ''rpn/box_decode'')) (\<lambda>_.
     bind_io (saver_save (Inr [length (concat box_regression), 4]) 0 kw4
                ''boxes_delta'' (Some ''rpn/box_decode'')) (\<lambda>_.
     let proposals = decode dec (concat box_regression) (concat concat_anchors) in
     bind_io (saver_save (Inr [length proposals, 4]) 0 kw4
                ''boxes'' (Some ''rpn/box_decode'')) (\<lambda>_.
       lift_io (view_rows N proposals))))"

fun mapM_io :: "('a \<Rightarrow> 'b io) \<Rightarrow> 'a list \<Rightarrow> 'b list io" where
  "mapM_io f [] = return_io []"
| "mapM_io f (x # xs) = bind_io (f x) (\<lambda>y. bind_io (mapM_io f xs) (\<lambda>ys. return_io (y # ys)))"

text \<open>Lines 141 to 147.\<close>

definition dump_after_decode :: "nat \<Rightarrow> box list list \<Rightarrow> unit list io" where
  "dump_after_decode level proposals =
     mapM_io (\<lambda>(img_idx, p). saver_save (Inr [length p, 4]) 0 kw4
                (''proposals_after_decode_img_'' @ str_nat img_idx @ ''_layer_'' @ str_nat level)
                (Some ''rpn''))
       (enumerate 0 proposals)"

text \<open>Lines 151 to 153: the collection of one image with its scores, clipped.\<close>

definition clipped_boxlist :: "box list \<Rightarrow> real list \<Rightarrow> int \<times> int \<Rightarrow> BoxList" where
  "clipped_boxlist proposal score im_shape =
     (let boxlist = new_BoxList proposal im_shape ''xyxy'';
          boxlist = add_field boxlist ''objectness'' score
      in clip_to_image boxlist)"

text \<open>Lines 151 to 154: the clipped collection, then filtered by size.\<close>

definition per_image_boxlist ::
  "RPNPostProcessor \<Rightarrow> box list \<Rightarrow> real list \<Rightarrow> int \<times> int \<Rightarrow> py_error + BoxList" where
  "per_image_boxlist self proposal score im_shape =
     remove_small_boxes (clipped_boxlist proposal score im_shape) (min_size self)"

text \<open>Lines 150 to 166: the body of the loop over the images.\<close>

definition per_image ::
  "RPNPostProcessor \<Rightarrow> ops \<Rightarrow> nat \<Rightarrow> nat \<times> box list \<times> real list \<times> (int \<times> int) \<Rightarrow> BoxList io" where
  "per_image self ext level item =
     (case item of (im_i, proposal, score, im_shape) \<Rightarrow>
        bind_io (lift_io (per_image_boxlist self proposal score im_shape)) (\<lambda>boxlist.
        bind_io (saver_save (Inr [len boxlist, 4]) 3 kw_level
                   ''after_remove_small_boxes'' (Some ''rpn'')) (\<lambda>_.
        let dump_callback = (\<lambda>keep. saver_save (Inr [length keep]) 3 kw_level
                                       ''nms_indices'' (Some ''rpn'')) in
        bind_io (boxlist_nms ext boxlist (nms_thresh self) (post_nms_top_n self) dump_callback)
          (\<lambda>boxlist.
        bind_io (saver_save (Inr [len boxlist, 4]) 3 kw_level ''proposals'' (Some ''rpn'')) (\<lambda>_.
          return_io boxlist)))))"

definition forward_for_single_feature_map ::
  "RPNPostProcessor \<Rightarrow> ops \<Rightarrow> BoxList list \<Rightarrow> objectness_tensor \<Rightarrow> delta list list \<Rightarrow> nat
     \<Rightarrow> BoxList list io" where
  "forward_for_single_feature_map self ext anchors objectness box_regression level =
     (let N = length (logits objectness) in
      bind_io (lift_io (prefilter self (sigmoid ext) objectness)) (\<lambda>(scores, topk_idx).
      bind_io (dump_topk_idx level topk_idx) (\<lambda>_.
      let image_shapes = map image_size anchors in
      bind_io (lift_io (gather_for_decode N anchors box_regression topk_idx))
        (\<lambda>(box_regression, concat_anchors).
      bind_io (decode_proposals (decode1 ext) N box_regression concat_anchors) (\<lambda>proposals.
      bind_io (dump_after_decode level proposals) (\<lambda>_.
        mapM_io (per_image self ext level)
          (enumerate 0 (zip proposals (zip scores image_shapes)))))))))"

text \<open>
  Lines 207 to 234.  In training with the batch-wide policy the scores of all images
  are pooled and the selected indices become a mask that is split back by image;
  otherwise each image is indexed by its own top-k indices.
\<close>

definition select_over_all_levels ::
  "RPNPostProcessor \<Rightarrow> BoxList list \<Rightarrow> py_error + BoxList list" where
  "select_over_all_levels self boxlists =
     (if training self \<and> fpn_post_nms_per_batch self then
        ebind (emap (\<lambda>b. get_field b ''objectness'') boxlists) (\<lambda>fs.
        ebind (tensor_cat fs) (\<lambda>objectness.
        let box_sizes = map len boxlists;
            k = min (fpn_post_nms_top_n self) (length objectness) in
        ebind (topk objectness k) (\<lambda>(_, inds_sorted).
        let inds_mask = scatter_ones (replicate (length objectness) 0) inds_sorted in
        ebind (tensor_split inds_mask box_sizes) (\<lambda>inds_mask.
          emap (\<lambda>(b, m). getitem_mask b m) (zip boxlists inds_mask)))))
      else
        emap (\<lambda>b.
          ebind (get_field b ''objectness'') (\<lambda>objectness.
          let k = min (fpn_post_nms_top_n self) (length objectness) in
          ebind (topk objectness k) (\<lambda>(_, inds_sorted). getitem_index b inds_sorted)))
          boxlists)"

text \<open>Lines 55 to 76.\<close>

definition add_gt_proposals :: "BoxList list \<Rightarrow> BoxList list \<Rightarrow> py_error + BoxList list" where
  "add_gt_proposals proposals targets =
     (if proposals = [] then Inl IndexError
      else
        ebind (emap (\<lambda>t. copy_with_fields t []) targets) (\<lambda>gt_boxes.
        let gt_boxes = map (\<lambda>g. add_field g ''objectness'' (replicate (len g) 1)) gt_boxes in
          emap (\<lambda>(proposal, gt_box). cat_boxlist [proposal, gt_box]) (zip proposals gt_boxes)))"

text \<open>Lines 190 to 195 of \<open>forward\<close>: the selection over the levels, then the ground truth.\<close>

definition aggregate ::
  "RPNPostProcessor \<Rightarrow> nat \<Rightarrow> BoxList list \<Rightarrow> BoxList list option \<Rightarrow> py_error + BoxList list" where
  "aggregate self num_levels boxlists targets =
     ebind (if 1 < num_levels then select_over_all_levels self boxlists else Inr boxlists)
       (\<lambda>boxlists.
          if training self \<and> targets \<noteq> None then add_gt_proposals boxlists (the targets)
          else Inr boxlists)"

text \<open>\<open>list(zip(*xss))\<close>.\<close>

definition zip_star :: "'a list list \<Rightarrow> 'a list list" where
  "zip_star xss =
     (case xss of
        [] \<Rightarrow> []
      | xs # rest \<Rightarrow>
          map (\<lambda>i. map (\<lambda>r. r ! i) xss) [0..<foldr (\<lambda>r. min (length r)) rest (length xs)])"

definition forward ::
  "RPNPostProcessor \<Rightarrow> ops \<Rightarrow> BoxList list list \<Rightarrow> objectness_tensor list \<Rightarrow> delta list list list
     \<Rightarrow> BoxList list option \<Rightarrow> BoxList list io" where
  "forward self ext anchors objectness box_regression targets =
     (let num_levels = length objectness;
          anchors = zip_star anchors in
      bind_io (mapM_io (\<lambda>(level, a, obj, reg). forward_for_single_feature_map self ext a obj reg level)
                 (enumerate 1 (zip anchors (zip objectness box_regression)))) (\<lambda>sampled_boxes.
      bind_io (lift_io (emap cat_boxlist (zip_star sampled_boxes))) (\<lambda>boxlists.
      bind_io (lift_io (aggregate self num_levels boxlists targets)) (\<lambda>boxlists.
      bind_io (mapM_io (\<lambda>(img_idx, boxlist). saver_save (Inr [len boxlist, 4]) 0 kw4
                          (''final_proposals_img_'' @ str_nat img_idx) (Some ''rpn''))
                 (enumerate 0 boxlists)) (\<lambda>_.
        return_io boxlists)))))"

section \<open>engine/inference.py\<close>

text \<open>
  A dictionary from image id to prediction, in insertion order; image ids are indices
  into the dataset.
\<close>

type_synonym 'v dict = "(nat \<times> 'v) list"

definition dict_update :: "'v dict \<Rightarrow> 'v dict \<Rightarrow> 'v dict" where
  "dict_update d p = foldl (\<lambda>d (k, v). AList.update k v d) d p"

definition dict_get :: "'v dict \<Rightarrow> nat \<Rightarrow> py_error + 'v" where
  "dict_get d k = (case map_of d k of None \<Rightarrow> Inl KeyError | Some v \<Rightarrow> Inr v)"

definition contiguity_warning :: string where
  "contiguity_warning =
     ''Number of images that were gathered from multiple processes is not '' @
     ''a contiguous set. Some images might be missing from the evaluation''"

text \<open>
  Lines 70 to 89.  \<open>all_predictions\<close> is what \<open>all_gather\<close> returned in this process
  and \<open>is_main\<close> what \<open>is_main_process()\<close> answers; the result comes with the
  warnings logged.  \<open>image_ids[-1]\<close> of an empty list is an \<open>IndexError\<close>.
\<close>

definition accumulate_predictions_from_multiple_gpus ::
  "bool \<Rightarrow> 'v dict list \<Rightarrow> (py_error + 'v list option) \<times> string list" where
  "accumulate_predictions_from_multiple_gpus is_main all_predictions =
     (if \<not> is_main then (Inr None, [])
      else
        let predictions = foldl dict_update [] all_predictions;
            image_ids = sort (map fst predictions)
        in if image_ids = [] then (Inl IndexError, [])
           else
             let warnings = (if length image_ids \<noteq> last image_ids + 1
                             then [contiguity_warning] else [])
             in (case emap (dict_get predictions) image_ids of
                   Inl e \<Rightarrow> (Inl e, warnings)
                 | Inr ps \<Rightarrow> (Inr (Some ps), warnings)))"

section \<open>Example inputs\<close>

definition example_world :: world where
  "example_world = \<lparr>tensor_saver = Some \<lparr>base_dir = ''d'', iteration = 0\<rparr>, files = []\<rparr>"

definition example_processor :: RPNPostProcessor where
  "example_processor = \<lparr>pre_nms_top_n = 2, post_nms_top_n = 2, nms_thresh = 1/2, min_size = 1,
     fpn_post_nms_top_n = 2, fpn_post_nms_per_batch = True, training = True\<rparr>"

definition example_ops :: ops where
  "example_ops = \<lparr>sigmoid = (\<lambda>x. x), decode1 = (\<lambda>d b. b),
     boxlist_nms = (\<lambda>b t n cb. return_io b)\<rparr>"

definition example_gathered :: "string dict list" where
  "example_gathered = [[(0, ''a''), (3, ''b'')], [(3, ''c''), (1, ''d'')]]"

section \<open>The ranking the spec asks for\<close>

text \<open>
  The spec's order of candidates: descending by score, ties broken by original index
  order.  \<open>is_topk xs k idx\<close> says that \<open>idx\<close> lists \<open>k\<close> indices of \<open>xs\<close> in that
  order, and that every index left out ranks after every index selected.
\<close>

definition ranks_before :: "real list \<Rightarrow> nat \<Rightarrow> nat \<Rightarrow> bool" where
  "ranks_before xs i j \<longleftrightarrow> xs ! j < xs ! i \<or> (xs ! i = xs ! j \<and> i < j)"

definition is_topk :: "real list \<Rightarrow> nat \<Rightarrow> nat list \<Rightarrow> bool" where
  "is_topk xs k idx \<longleftrightarrow>
     length idx = k \<and> set idx \<subseteq> {0..<length xs} \<and> sorted_wrt (ranks_before xs) idx
     \<and> (\<forall>j < length xs. j \<notin> set idx \<longrightarrow> (\<forall>c \<in> set idx. ranks_before xs c j))"

text \<open>
  The invariant of a Box Collection: every field has one entry per box.  \<open>scored\<close>
  adds that the collection carries the \<open>objectness\<close> field.
\<close>

definition aligned :: "BoxList \<Rightarrow> bool" where
  "aligned bl \<longleftrightarrow> (\<forall>f \<in> set (extra_fields bl). length (snd f) = len bl)"

definition scored :: "BoxList \<Rightarrow> bool" where
  "scored bl \<longleftrightarrow> aligned bl \<and> ''objectness'' \<in> set (fields_of bl)"

definition pair_before :: "nat \<times> real \<Rightarrow> nat \<times> real \<Rightarrow> bool" where
  "pair_before p q \<longleftrightarrow> snd q < snd p \<or> (snd p = snd q \<and> fst p < fst q)"

text \<open>The level of the spec's scenario shape: two images, four anchors each.\<close>

definition example_objectness :: objectness_tensor where
  "example_objectness = \<lparr>dim_A = 2, dim_H = 1, dim_W = 2,
     logits = [[9/10, 1/10, 8/10, 3/10], [5/10, 5/10, 7/10, 5/10]]\<rparr>"

text \<open>Two images after the concatenation over the levels, with three and two boxes.\<close>

definition example_boxlists :: "BoxList list" where
  "example_boxlists =
     [\<lparr>bbox = [(0, 0, 1, 1), (2, 2, 4, 4), (5, 5, 7, 7)], image_size = (10, 10), mode = ''xyxy'',
       extra_fields = [(''objectness'', [2/10, 9/10, 5/10])]\<rparr>,
      \<lparr>bbox = [(1, 1, 3, 3), (6, 6, 9, 9)], image_size = (10, 10), mode = ''xyxy'',
       extra_fields = [(''objectness'', [7/10, 6/10])]\<rparr>]"

text \<open>
  The collection \<open>bl[idx]\<close> when every index is in range, and the per-image selection
  of \<open>select_over_all_levels\<close> written with it.
\<close>

definition reindexed :: "BoxList \<Rightarrow> nat list \<Rightarrow> BoxList" where
  "reindexed bl idx = bl\<lparr>bbox := map (\<lambda>j. bbox bl ! j) idx,
     extra_fields := map (\<lambda>f. (fst f, map (\<lambda>j. snd f ! j) idx)) (extra_fields bl)\<rparr>"

definition select_image :: "RPNPostProcessor \<Rightarrow> BoxList \<Rightarrow> BoxList" where
  "select_image self b =
     reindexed b (take (min (fpn_post_nms_top_n self) (len b))
       (argsort_desc (the (map_of (extra_fields b) ''objectness''))))"

text \<open>
  For the batch-wide selection: the scores of one collection, the collection \<open>bl[m]\<close>
  for a mask of the right length, and the position of image \<open>i\<close> in the pooled scores.
\<close>

definition objectness_of :: "BoxList \<Rightarrow> real list" where
  "objectness_of bl = (case get_field bl ''objectness'' of Inl _ \<Rightarrow> [] | Inr d \<Rightarrow> d)"

definition masked :: "BoxList \<Rightarrow> 8 word list \<Rightarrow> BoxList" where
  "masked bl m = bl\<lparr>bbox := map fst (filter (\<lambda>p. snd p \<noteq> 0) (zip (bbox bl) m)),
     extra_fields := map (\<lambda>f. (fst f, map fst (filter (\<lambda>p. snd p \<noteq> 0) (zip (snd f) m))))
                       (extra_fields bl)\<rparr>"

definition offset :: "BoxList list \<Rightarrow> nat \<Rightarrow> nat" where
  "offset boxlists i = sum_list (map len (take i boxlists))"

text \<open>The mask of the batch-wide selection and its pieces.\<close>

definition batch_selection :: "RPNPostProcessor \<Rightarrow> BoxList list \<Rightarrow> nat list" where
  "batch_selection self boxlists =
     take (min (fpn_post_nms_top_n self) (length (concat (map objectness_of boxlists))))
       (argsort_desc (concat (map objectness_of boxlists)))"

definition batch_masks :: "RPNPostProcessor \<Rightarrow> BoxList list \<Rightarrow> 8 word list list" where
  "batch_masks self boxlists =
     split_sizes
       (scatter_ones (replicate (length (concat (map objectness_of boxlists))) 0)
          (batch_selection self boxlists))
       (map len boxlists)"

text \<open>
  The spec's scenario: training, batch-wide policy, two images with five candidates
  each and \<open>fpn_post_nms_top_n = 6\<close>.
\<close>

definition scenario_processor :: RPNPostProcessor where
  "scenario_processor = \<lparr>pre_nms_top_n = 5, post_nms_top_n = 5, nms_thresh = 1/2, min_size = 0,
     fpn_post_nms_top_n = 6, fpn_post_nms_per_batch = True, training = True\<rparr>"

definition scenario_boxlists :: "BoxList list" where
  "scenario_boxlists =
     [\<lparr>bbox = [(0, 0, 1, 1), (0, 0, 2, 2), (0, 0, 3, 3), (0, 0, 4, 4), (0, 0, 5, 5)],
       image_size = (10, 10), mode = ''xyxy'',
       extra_fields = [(''objectness'', [9/10, 8/10, 7/10, 6/10, 5/10])]\<rparr>,
      \<lparr>bbox = [(1, 1, 2, 2), (1, 1, 3, 3), (1, 1, 4, 4), (1, 1, 5, 5), (1, 1, 6, 6)],
       image_size = (10, 10), mode = ''xyxy'',
       extra_fields = [(''objectness'', [2/10, 95/100, 3/10, 85/100, 4/10])]\<rparr>]"

text \<open>
  The ground truth of the two example images, with a field of its own, and what the
  batch-wide selection with \<open>fpn_post_nms_top_n = 2\<close> keeps of the example images.
\<close>

definition example_targets :: "BoxList list" where
  "example_targets =
     [\<lparr>bbox = [(1, 1, 2, 2)], image_size = (10, 10), mode = ''xyxy'',
       extra_fields = [(''labels'', [3])]\<rparr>,
      \<lparr>bbox = [(0, 0, 5, 5), (2, 2, 3, 3)], image_size = (10, 10), mode = ''xyxy'',
       extra_fields = [(''labels'', [1, 2])]\<rparr>]"

definition example_selected :: "BoxList list" where
  "example_selected =
     [\<lparr>bbox = [(2, 2, 4, 4)], image_size = (10, 10), mode = ''xyxy'',
       extra_fields = [(''objectness'', [9/10])]\<rparr>,
      \<lparr>bbox = [(1, 1, 3, 3)], image_size = (10, 10), mode = ''xyxy'',
       extra_fields = [(''objectness'', [7/10])]\<rparr>]"

text \<open>A proposal collection with the boxes of a target appended, scored 1.\<close>

definition with_gt :: "BoxList \<Rightarrow> BoxList \<Rightarrow> BoxList" where
  "with_gt proposal target = proposal\<lparr>bbox := bbox proposal @ bbox target,
     extra_fields := [(''objectness'', objectness_of proposal @ replicate (len target) 1)]\<rparr>"

text \<open>
  The area of a box, a well-formed box that lies fully outside an image of the given
  size, and a box inside it; then four decoded boxes for an image of size 10 by 10.
\<close>

definition box_area :: "box \<Rightarrow> real" where
  "box_area b = box_width b * box_height b"

definition outside :: "int \<times> int \<Rightarrow> box \<Rightarrow> bool" where
  "outside sz b =
     (case (sz, b) of ((w, h), (x1, y1, x2, y2)) \<Rightarrow>
        x1 \<le> x2 \<and> y1 \<le> y2 \<and> (x2 \<le> 0 \<or> real_of_int w \<le> x1 \<or> y2 \<le> 0 \<or> real_of_int h \<le> y1))"

definition inside :: "int \<times> int \<Rightarrow> box \<Rightarrow> bool" where
  "inside sz b =
     (case (sz, b) of ((w, h), (x1, y1, x2, y2)) \<Rightarrow>
        0 \<le> x1 \<and> x1 \<le> real_of_int w \<and> 0 \<le> x2 \<and> x2 \<le> real_of_int w
        \<and> 0 \<le> y1 \<and> y1 \<le> real_of_int h \<and> 0 \<le> y2 \<and> y2 \<le> real_of_int h)"

definition example_proposal :: "box list" where
  "example_proposal = [(1, 1, 3/2, 4), (-5, -5, -1, -1), (0, 0, 3, 3), (8, 8, 12, 12)]"

text \<open>A level with a batch of one image.\<close>

definition example_single :: objectness_tensor where
  "example_single = \<lparr>dim_A = 2, dim_H = 1, dim_W = 2, logits = [[9/10, 1/10, 8/10, 3/10]]\<rparr>"

text \<open>
  The anchors and the regression deltas of the example level: two images, four anchors
  each.
\<close>

definition example_anchors :: "BoxList list" where
  "example_anchors =
     [\<lparr>bbox = [(0, 0, 1, 1), (0, 0, 2, 2), (0, 0, 3, 3), (0, 0, 4, 4)],
       image_size = (10, 10), mode = ''xyxy'', extra_fields = []\<rparr>,
      \<lparr>bbox = [(0, 0, 1, 1), (0, 0, 2, 2), (0, 0, 3, 3), (0, 0, 4, 4)],
       image_size = (10, 10), mode = ''xyxy'', extra_fields = []\<rparr>]"

definition example_regression :: "delta list list" where
  "example_regression =
     [[(0, 0, 0, 0), (1, 0, 0, 0), (2, 0, 0, 0), (3, 0, 0, 0)],
      [(0, 1, 0, 0), (1, 1, 0, 0), (2, 1, 0, 0), (3, 1, 0, 0)]]"

section \<open>Properties of the tensor saver\<close>

text \<open>
  C10: \<open>TensorSaver.step\<close> treats a passed iteration 0 as no iteration: a nonzero
  \<open>k\<close> is stored, while \<open>step()\<close> and \<open>step(0)\<close> both add one to the stored iteration,
  so no argument makes \<open>step\<close> set the counter to 0 whatever the state.
\<close>

theorem step_zero_increments:
  "(k \<noteq> 0 \<longrightarrow> iteration (step s (Some k)) = k)
   \<and> iteration (step s None) = iteration s + 1
   \<and> iteration (step s (Some 0)) = iteration s + 1
   \<and> step s (Some 0) = step s None
   \<and> \<not> (\<exists>a. \<forall>s'. iteration (step s' a) = 0)"
proof -
  have "\<exists>s'. iteration (step s' a) \<noteq> 0" for a
  proof (cases "a \<noteq> None \<and> a \<noteq> Some 0")
    case True
    then show ?thesis by (auto simp: step_def)
  next
    case False
    then have "iteration (step \<lparr>base_dir = [], iteration = 0\<rparr> a) = 1"
      by (auto simp: step_def split: option.splits)
    then show ?thesis by (metis zero_neq_one)
  qed
  then show ?thesis by (auto simp: step_def)
qed

theorem step_zero_increments_witness:
  "iteration (step \<lparr>base_dir = ''d'', iteration = 7\<rparr> (Some 3)) = 3
   \<and> iteration (step \<lparr>base_dir = ''d'', iteration = 7\<rparr> None) = 8
   \<and> iteration (step \<lparr>base_dir = ''d'', iteration = 7\<rparr> (Some 0)) = 8"
  using step_zero_increments [of 3 "\<lparr>base_dir = ''d'', iteration = 7\<rparr>"] by simp

section \<open>The calls of the tensor saver\<close>

lemma bind_args_kw_only:
  "bind_args params nreq 0 kws = Inr () \<longleftrightarrow>
     distinct kws \<and> set kws \<subseteq> set params \<and> set (take nreq params) \<subseteq> set kws"
  by (auto simp: bind_args_def)

lemma bind_args_unexpected:
  "\<exists>k \<in> set kws. k \<notin> set params \<Longrightarrow> bind_args params nreq npos kws = Inl TypeError"
  by (auto simp: bind_args_def)

lemma create_unexpected:
  "\<exists>k \<in> set kws. k \<notin> set create_params \<Longrightarrow> create_tensor_saver npos kws d i w = (Inl TypeError, w)"
  by (simp add: create_tensor_saver_def bind_args_unexpected)

lemma save_unexpected:
  "\<exists>k \<in> set kws. k \<notin> set save_params \<Longrightarrow> tensor_saver w \<noteq> None \<Longrightarrow>
   saver_save (Inr shape) npos kws name scope w = (Inl TypeError, w)"
  by (auto simp: saver_save_def bind_io_def get_tensor_saver_def lift_io_def bind_args_unexpected)

lemma do_train_fails: "do_train start rest w = (Inl TypeError, w)"
  by (simp add: do_train_def bind_io_def create_unexpected create_params_def)

lemma inference_fails: "inference rest w = (Inl TypeError, w)"
  by (simp add: inference_def bind_io_def create_unexpected create_params_def)

lemma per_image_fails:
  "tensor_saver w \<noteq> None \<Longrightarrow> per_image_boxlist self proposal score im_shape = Inr bl \<Longrightarrow>
   per_image self ext level (im_i, proposal, score, im_shape) w = (Inl TypeError, w)"
  by (simp add: per_image_def bind_io_def lift_io_def save_unexpected kw_level_def save_params_def)

lemma example_per_image_boxlist:
  "per_image_boxlist example_processor [(0, 0, 3, 3), (1, 1, 3/2, 4)] [9/10, 8/10] (10, 10)
   = Inr \<lparr>bbox = [(0, 0, 3, 3)], image_size = (10, 10), mode = ''xyxy'',
          extra_fields = [(''objectness'', [9/10])]\<rparr>"
  by (simp add: per_image_boxlist_def clipped_boxlist_def example_processor_def new_BoxList_def
      add_field_def clip_to_image_def remove_small_boxes_def getitem_mask_def take_mask_def clip_box_def
      large_enough_def box_width_def box_height_def ebind_def)

section \<open>Gathering the predictions\<close>

lemma emap_all_Inr:
  "(\<And>x. x \<in> set xs \<Longrightarrow> f x = Inr (g x)) \<Longrightarrow> emap f xs = Inr (map g xs)"
  by (induction xs) auto

lemma map_of_dict_update: "map_of (dict_update d p) = map_of d ++ map_of (rev p)"
  unfolding dict_update_def
proof (induction p arbitrary: d)
  case Nil
  show ?case by simp
next
  case (Cons kv p)
  let ?F = "\<lambda>d (k, v). AList.update k v d"
  obtain k v where kv: "kv = (k, v)" by (cases kv)
  have "map_of (foldl ?F d (kv # p)) = map_of (foldl ?F (AList.update k v d) p)"
    by (simp add: kv)
  also have "\<dots> = map_of (AList.update k v d) ++ map_of (rev p)"
    by (rule Cons.IH)
  also have "\<dots> = (map_of d)(k \<mapsto> v) ++ map_of (rev p)"
    by (simp only: update_conv')
  also have "\<dots> = map_of d ++ map_of (rev (kv # p))"
    by (rule ext) (simp add: kv map_add_def split: option.splits)
  finally show ?case .
qed

lemma distinct_dict_update:
  "distinct (map fst d) \<Longrightarrow> distinct (map fst (dict_update d p))"
  unfolding dict_update_def
  by (induction p arbitrary: d) (auto simp: distinct_update)

lemma map_of_merged:
  "map_of (foldl dict_update d ps) = map_of d ++ map_of (rev (concat ps))"
  by (induction ps arbitrary: d) (simp_all add: map_of_dict_update map_of_append)

lemma distinct_merged:
  "distinct (map fst d) \<Longrightarrow> distinct (map fst (foldl dict_update d ps))"
  by (induction ps arbitrary: d) (simp_all add: distinct_dict_update)

lemma keys_merged:
  "set (map fst (foldl dict_update [] ps)) = fst ` set (concat ps)"
proof -
  have "set (map fst (foldl dict_update [] ps)) = dom (map_of (foldl dict_update [] ps))"
    by (simp add: dom_map_of_conv_image_fst)
  also have "\<dots> = dom (map_of (rev (concat ps)))"
    by (simp add: map_of_merged)
  also have "\<dots> = fst ` set (concat ps)"
    by (simp only: dom_map_of_conv_image_fst set_rev)
  finally show ?thesis .
qed

lemma sorted_ids_merged:
  "sort (map fst (foldl dict_update [] ps)) = sorted_list_of_set (fst ` set (concat ps))"
proof -
  let ?ks = "map fst (foldl dict_update [] ps)"
  have d: "distinct ?ks"
    by (rule distinct_merged) simp
  have "sorted_list_of_set (set ?ks) = sort (remdups ?ks)"
    by (rule sorted_list_of_set_sort_remdups)
  also have "remdups ?ks = ?ks" using d by (rule distinct_remdups_id)
  finally have "sort ?ks = sorted_list_of_set (set ?ks)" by (rule sym)
  then show ?thesis by (simp only: keys_merged)
qed

lemma last_sorted_list_of_set:
  fixes A :: "nat set"
  assumes "finite A" "A \<noteq> {}"
  shows "last (sorted_list_of_set A) = Max A"
proof -
  let ?xs = "sorted_list_of_set A"
  have ne: "?xs \<noteq> []" using assms by simp
  have s: "sorted ?xs" by simp
  have "last ?xs \<in> A" using ne assms last_in_set [of ?xs] by simp
  moreover have "a \<le> last ?xs" if "a \<in> A" for a
  proof -
    from that assms have "a \<in> set ?xs" by simp
    then obtain i where i: "i < length ?xs" "?xs ! i = a" by (auto simp: in_set_conv_nth)
    have "?xs ! i \<le> ?xs ! (length ?xs - 1)"
      using s i(1) by (intro sorted_nth_mono) auto
    then show ?thesis using i ne by (simp add: last_conv_nth)
  qed
  ultimately show ?thesis using assms by (intro Max_eqI [symmetric]) auto
qed

lemma contiguous_iff:
  fixes A :: "nat set"
  assumes "finite A" "A \<noteq> {}"
  shows "card A = Max A + 1 \<longleftrightarrow> (\<exists>n. A = {0..<n})"
proof
  assume c: "card A = Max A + 1"
  have "A \<subseteq> {0..<Max A + 1}" using assms by (auto simp: less_Suc_eq_le)
  moreover have "card {0..<Max A + 1} = card A" using c by simp
  ultimately have "A = {0..<Max A + 1}"
    by (intro card_subset_eq) auto
  then show "\<exists>n. A = {0..<n}" ..
next
  assume "\<exists>n. A = {0..<n}"
  then obtain n where n: "A = {0..<n}" ..
  with assms have "0 < n" by auto
  then have "Max A = n - 1" unfolding n
    by (intro Max_eqI) auto
  with n \<open>0 < n\<close> show "card A = Max A + 1" by simp
qed

lemma accumulate_main:
  fixes ps :: "'v dict list"
  assumes ne: "fst ` set (concat ps) \<noteq> {}"
  shows "accumulate_predictions_from_multiple_gpus True ps =
     (Inr (Some (map (\<lambda>i. the (map_of (rev (concat ps)) i))
                  (sorted_list_of_set (fst ` set (concat ps))))),
      if \<exists>n. fst ` set (concat ps) = {0..<n} then [] else [contiguity_warning])"
proof -
  let ?A = "fst ` set (concat ps)"
  let ?ids = "sorted_list_of_set ?A"
  let ?P = "foldl dict_update [] ps"
  have fin: "finite ?A" by simp
  have ids_ne: "?ids \<noteq> []" using ne fin by simp
  have len: "length ?ids = card ?A" by simp
  have lst: "last ?ids = Max ?A" using fin ne by (rule last_sorted_list_of_set)
  have cond: "(length ?ids \<noteq> last ?ids + 1) \<longleftrightarrow> \<not> (\<exists>n. ?A = {0..<n})"
    unfolding len lst using contiguous_iff [OF fin ne] by simp
  have get: "dict_get ?P i = Inr (the (map_of (rev (concat ps)) i))" if "i \<in> set ?ids" for i
  proof -
    from that have "i \<in> ?A" using fin by simp
    then have "i \<in> dom (map_of (rev (concat ps)))"
      by (simp only: dom_map_of_conv_image_fst set_rev)
    then obtain v where "map_of (rev (concat ps)) i = Some v" by auto
    then show ?thesis by (simp add: dict_get_def map_of_merged)
  qed
  have em: "emap (dict_get ?P) ?ids = Inr (map (\<lambda>i. the (map_of (rev (concat ps)) i)) ?ids)"
    by (rule emap_all_Inr) (rule get)
  show ?thesis
    unfolding accumulate_predictions_from_multiple_gpus_def Let_def sorted_ids_merged
    using ids_ne cond em by simp
qed

lemma accumulate_nothing_gathered:
  fixes ps :: "'v dict list"
  assumes "concat ps = []"
  shows "accumulate_predictions_from_multiple_gpus True ps = (Inl IndexError, [])"
proof -
  have "set (map fst (foldl dict_update [] ps)) = {}"
    using keys_merged [of ps] assms by simp
  then have "map fst (foldl dict_update [] ps) = []" by simp
  then show ?thesis
    by (simp add: accumulate_predictions_from_multiple_gpus_def Let_def)
qed

lemma example_gathered_ids: "fst ` set (concat example_gathered) = {0, 1, 3}"
  unfolding example_gathered_def by auto

lemma example_gathered_sorted:
  "sorted_list_of_set (fst ` set (concat example_gathered)) = [0, 1, 3]"
proof -
  have e: "fst ` set (concat example_gathered) = set [0, 1, 3::nat]"
    unfolding example_gathered_ids by simp
  show ?thesis
    unfolding e by (simp only: sorted_list_of_set_sort_remdups) simp
qed

lemma example_gathered_gap: "fst ` set (concat example_gathered) \<noteq> {0..<n}"
proof
  assume "fst ` set (concat example_gathered) = {0..<n}"
  then have e: "{0, 1, 3} = {0..<n}" by (simp only: example_gathered_ids)
  have "3 \<in> {0, 1, 3::nat}" by simp
  with e have "3 < n" by simp
  then have "2 \<in> {0..<n}" by simp
  with e have "2 \<in> {0, 1, 3::nat}" by simp
  then show False by simp
qed

text \<open>
  C7: a process that is not the main process returns no result right after the gather
  and logs nothing.  In the main process, when the gathered image ids are not a range
  \<open>0, ..., n - 1\<close>, the warning is logged, no error is raised, and the result is
  the merged predictions (for every id the one gathered last) in ascending order of id;
  for a nonempty range the same result comes without the warning.
\<close>

theorem accumulate_warns_and_proceeds:
  fixes ps :: "'v dict list"
  shows "accumulate_predictions_from_multiple_gpus False ps = (Inr None, [])
   \<and> ((\<forall>n. fst ` set (concat ps) \<noteq> {0..<n}) \<longrightarrow>
        accumulate_predictions_from_multiple_gpus True ps =
          (Inr (Some (map (\<lambda>i. the (map_of (rev (concat ps)) i))
                       (sorted_list_of_set (fst ` set (concat ps))))),
           [contiguity_warning]))
   \<and> ((\<exists>n>0. fst ` set (concat ps) = {0..<n}) \<longrightarrow>
        accumulate_predictions_from_multiple_gpus True ps =
          (Inr (Some (map (\<lambda>i. the (map_of (rev (concat ps)) i))
                       (sorted_list_of_set (fst ` set (concat ps))))),
           []))"
proof (intro conjI impI)
  show "accumulate_predictions_from_multiple_gpus False ps = (Inr None, [])"
    by (simp add: accumulate_predictions_from_multiple_gpus_def)
next
  assume a: "\<forall>n. fst ` set (concat ps) \<noteq> {0..<n}"
  then have "fst ` set (concat ps) \<noteq> {0..<0}" by blast
  then have ne: "fst ` set (concat ps) \<noteq> {}" by simp
  show "accumulate_predictions_from_multiple_gpus True ps =
          (Inr (Some (map (\<lambda>i. the (map_of (rev (concat ps)) i))
                       (sorted_list_of_set (fst ` set (concat ps))))),
           [contiguity_warning])"
    using accumulate_main [OF ne] a by simp
next
  assume "\<exists>n>0. fst ` set (concat ps) = {0..<n}"
  then obtain n where n: "0 < n" "fst ` set (concat ps) = {0..<n}" by blast
  then have ne: "fst ` set (concat ps) \<noteq> {}" by auto
  have ex: "\<exists>n. fst ` set (concat ps) = {0..<n}" using n by blast
  show "accumulate_predictions_from_multiple_gpus True ps =
          (Inr (Some (map (\<lambda>i. the (map_of (rev (concat ps)) i))
                       (sorted_list_of_set (fst ` set (concat ps))))),
           [])"
    using accumulate_main [OF ne] ex by simp
qed


theorem accumulate_warns_and_proceeds_witness:
  "(\<forall>n. fst ` set (concat example_gathered) \<noteq> {0..<n})
   \<and> accumulate_predictions_from_multiple_gpus True example_gathered
       = (Inr (Some [''a'', ''d'', ''c'']), [contiguity_warning])
   \<and> accumulate_predictions_from_multiple_gpus False example_gathered = (Inr None, [])"
proof -
  have h: "\<forall>n. fst ` set (concat example_gathered) \<noteq> {0..<n}"
    using example_gathered_gap by blast
  have "accumulate_predictions_from_multiple_gpus True example_gathered =
          (Inr (Some (map (\<lambda>i. the (map_of (rev (concat example_gathered)) i))
                       (sorted_list_of_set (fst ` set (concat example_gathered))))),
           [contiguity_warning])"
    using accumulate_warns_and_proceeds [of example_gathered] h by blast
  then have "accumulate_predictions_from_multiple_gpus True example_gathered
       = (Inr (Some [''a'', ''d'', ''c'']), [contiguity_warning])"
    unfolding example_gathered_sorted by (simp add: example_gathered_def)
  then show ?thesis
    using h accumulate_warns_and_proceeds [of example_gathered] by blast
qed

section \<open>The top-k operation\<close>

lemma insort_pair_before:
  "sorted_wrt pair_before ps \<Longrightarrow> \<forall>q \<in> set ps. fst p < fst q \<Longrightarrow>
   sorted_wrt pair_before (insort_key (\<lambda>p. - snd p) p ps)"
proof (induction ps)
  case Nil
  show ?case by simp
next
  case (Cons q qs)
  show ?case
  proof (cases "snd q \<le> snd p")
    case True
    have "pair_before p z" if "z \<in> set (q # qs)" for z
      using that True Cons.prems by (fastforce simp: pair_before_def)
    with True Cons.prems show ?thesis by simp
  next
    case False
    then have "pair_before q p" by (simp add: pair_before_def)
    with False Cons show ?thesis by (auto simp: set_insort_key)
  qed
qed

lemma sort_enumerate_pair_before:
  "sorted_wrt pair_before (sort_key (\<lambda>p. - snd p) (enumerate n xs))"
proof (induction xs arbitrary: n)
  case Nil
  show ?case by simp
next
  case (Cons x xs)
  have "\<forall>q \<in> set (sort_key (\<lambda>p. - snd p) (enumerate (Suc n) xs)). fst (n, x) < fst q"
    by (auto simp: in_set_enumerate_eq)
  with Cons.IH [of "Suc n"] show ?case
    by (simp add: insort_pair_before)
qed

lemma mset_argsort_desc: "mset (argsort_desc xs) = mset [0..<length xs]"
proof -
  have "mset (argsort_desc xs) = mset (map fst (enumerate 0 xs))"
    unfolding argsort_desc_def by (simp only: mset_map mset_sort)
  then show ?thesis by simp
qed

lemma set_argsort_desc: "set (argsort_desc xs) = {0..<length xs}"
  using mset_eq_setD [OF mset_argsort_desc [of xs]] by simp

lemma distinct_argsort_desc: "distinct (argsort_desc xs)"
  using mset_eq_imp_distinct_iff [OF mset_argsort_desc [of xs]] by simp

lemma length_argsort_desc: "length (argsort_desc xs) = length xs"
  by (simp add: argsort_desc_def)

lemma sorted_argsort_desc: "sorted_wrt (ranks_before xs) (argsort_desc xs)"
proof -
  let ?ps = "sort_key (\<lambda>p. - snd p) (enumerate 0 xs)"
  have "sorted_wrt (\<lambda>p q. ranks_before xs (fst p) (fst q)) ?ps"
  proof (rule sorted_wrt_mono_rel [OF _ sort_enumerate_pair_before])
    fix p q assume "p \<in> set ?ps" "q \<in> set ?ps" "pair_before p q"
    then show "ranks_before xs (fst p) (fst q)"
      by (auto simp: in_set_enumerate_eq pair_before_def ranks_before_def)
  qed
  then show ?thesis by (simp add: argsort_desc_def sorted_wrt_map)
qed

lemma is_topk_take:
  assumes "k \<le> length xs"
  shows "is_topk xs k (take k (argsort_desc xs))"
proof -
  let ?L = "argsort_desc xs"
  have s: "sorted_wrt (ranks_before xs) (take k ?L)
      \<and> (\<forall>c \<in> set (take k ?L). \<forall>j \<in> set (drop k ?L). ranks_before xs c j)"
    using sorted_argsort_desc [of xs]
      sorted_wrt_append [of "ranks_before xs" "take k ?L" "drop k ?L"] by simp
  have top: "ranks_before xs c j"
    if "j < length xs" "j \<notin> set (take k ?L)" "c \<in> set (take k ?L)" for j c
  proof -
    from that(1) have "j \<in> set (take k ?L @ drop k ?L)" by (simp add: set_argsort_desc)
    with that(2) have "j \<in> set (drop k ?L)" by (simp only: set_append) blast
    with s that(3) show ?thesis by blast
  qed
  have sub: "set (take k ?L) \<subseteq> {0..<length xs}"
    using set_take_subset [of k ?L] by (simp only: set_argsort_desc)
  have "sorted_wrt (ranks_before xs) (take k ?L)"
    using s by blast
  with assms sub top show ?thesis
    unfolding is_topk_def by (simp add: length_argsort_desc)
qed

lemma topk_ok:
  "k \<le> length xs \<Longrightarrow> topk xs k = Inr (map (\<lambda>i. xs ! i) (take k (argsort_desc xs)), take k (argsort_desc xs))"
  by (simp add: topk_def Let_def)

lemma is_topk_distinct: "is_topk xs k idx \<Longrightarrow> distinct idx"
proof -
  assume "is_topk xs k idx"
  then have "sorted_wrt (ranks_before xs) idx" by (simp add: is_topk_def)
  then have "sorted_wrt (\<noteq>) idx"
    by (rule sorted_wrt_mono_rel [rotated]) (auto simp: ranks_before_def)
  then show ?thesis by (simp add: distinct_conv_nth sorted_wrt_iff_nth_less) (metis nat_neq_iff)
qed

lemma is_topk_descending:
  "is_topk xs k idx \<Longrightarrow> sorted_wrt (\<ge>) (map (\<lambda>i. xs ! i) idx)"
proof -
  assume "is_topk xs k idx"
  then have "sorted_wrt (ranks_before xs) idx" by (simp add: is_topk_def)
  then have "sorted_wrt (\<lambda>i j. xs ! i \<ge> xs ! j) idx"
    by (rule sorted_wrt_mono_rel [rotated]) (auto simp: ranks_before_def)
  then show ?thesis by (simp add: sorted_wrt_map)
qed

lemma is_topk_all:
  assumes "is_topk xs k idx" "length xs \<le> k"
  shows "mset idx = mset [0..<length xs]"
proof -
  have d: "distinct idx" using assms(1) by (rule is_topk_distinct)
  have sub: "set idx \<subseteq> {0..<length xs}" and len: "length idx = k"
    using assms(1) by (simp_all add: is_topk_def)
  have "card (set idx) = k" using d len by (simp add: distinct_card)
  with assms(2) have "card {0..<length xs} \<le> card (set idx)" by simp
  with sub have "set idx = {0..<length xs}"
    by (intro card_seteq) auto
  then have "set idx = set [0..<length xs]" by simp
  with d show ?thesis by (metis distinct_upt set_eq_iff_mset_eq_distinct)
qed

section \<open>The top-k pre-filter\<close>

lemma topk_rows_ok:
  assumes "\<forall>r \<in> set rows. k \<le> length r"
  shows "topk_rows rows k =
     Inr (map (\<lambda>r. map (\<lambda>i. r ! i) (take k (argsort_desc r))) rows,
          map (\<lambda>r. take k (argsort_desc r)) rows)"
proof -
  have "emap (\<lambda>r. topk r k) rows =
      Inr (map (\<lambda>r. (map (\<lambda>i. r ! i) (take k (argsort_desc r)), take k (argsort_desc r))) rows)"
    using assms by (intro emap_all_Inr) (simp add: topk_ok)
  then show ?thesis by (simp add: topk_rows_def ebind_def comp_def)
qed

lemma prefilter_ok:
  assumes "\<forall>r \<in> set (logits t). length r = dim_A t * dim_H t * dim_W t"
  shows "prefilter self sig t =
     Inr (map (\<lambda>r. map (\<lambda>i. map sig r ! i)
                  (take (min (pre_nms_top_n self) (dim_A t * dim_H t * dim_W t))
                     (argsort_desc (map sig r)))) (logits t),
          map (\<lambda>r. take (min (pre_nms_top_n self) (dim_A t * dim_H t * dim_W t))
                     (argsort_desc (map sig r))) (logits t))"
proof -
  have "\<forall>r \<in> set (map (map sig) (logits t)).
      min (pre_nms_top_n self) (dim_A t * dim_H t * dim_W t) \<le> length r"
    using assms by simp
  from topk_rows_ok [OF this] show ?thesis
    by (simp add: prefilter_def Let_def comp_def)
qed

lemma example_prefilter:
  "prefilter example_processor (\<lambda>x. x) example_objectness
     = Inr ([[9/10, 8/10], [7/10, 5/10]], [[0, 2], [2, 0]])"
  by (simp add: prefilter_def example_processor_def example_objectness_def topk_rows_def
      topk_def argsort_desc_def ebind_def)

lemma prefilter_rows:
  assumes "\<forall>r \<in> set (logits t). length r = dim_A t * dim_H t * dim_W t"
  shows "\<exists>scores idx. prefilter self sig t = Inr (scores, idx)
     \<and> length scores = length (logits t) \<and> length idx = length (logits t)
     \<and> (\<forall>i < length (logits t).
          is_topk (map sig (logits t ! i))
            (min (pre_nms_top_n self) (dim_A t * dim_H t * dim_W t)) (idx ! i)
          \<and> scores ! i = map (\<lambda>j. sig (logits t ! i ! j)) (idx ! i)
          \<and> sorted_wrt (\<ge>) (scores ! i)
          \<and> prefilter self sig (t\<lparr>logits := [logits t ! i]\<rparr>) = Inr ([scores ! i], [idx ! i])
          \<and> (dim_A t * dim_H t * dim_W t \<le> pre_nms_top_n self \<longrightarrow>
               mset (idx ! i) = mset [0..<dim_A t * dim_H t * dim_W t]))"
proof -
  let ?n = "dim_A t * dim_H t * dim_W t"
  let ?k = "min (pre_nms_top_n self) ?n"
  let ?idx = "map (\<lambda>r. take ?k (argsort_desc (map sig r))) (logits t)"
  let ?scores = "map (\<lambda>r. map (\<lambda>i. map sig r ! i) (take ?k (argsort_desc (map sig r)))) (logits t)"
  have pre: "prefilter self sig t = Inr (?scores, ?idx)"
    using assms by (rule prefilter_ok)
  have row: "is_topk (map sig (logits t ! i)) ?k (?idx ! i)
          \<and> ?scores ! i = map (\<lambda>j. sig (logits t ! i ! j)) (?idx ! i)
          \<and> sorted_wrt (\<ge>) (?scores ! i)
          \<and> prefilter self sig (t\<lparr>logits := [logits t ! i]\<rparr>) = Inr ([?scores ! i], [?idx ! i])
          \<and> (?n \<le> pre_nms_top_n self \<longrightarrow> mset (?idx ! i) = mset [0..<?n])"
    if i: "i < length (logits t)" for i
  proof -
    let ?r = "logits t ! i"
    have len: "length ?r = ?n" using assms i by simp
    have tk: "is_topk (map sig ?r) ?k (take ?k (argsort_desc (map sig ?r)))"
      by (rule is_topk_take) (simp add: len)
    have sub: "set (take ?k (argsort_desc (map sig ?r))) \<subseteq> {0..<length ?r}"
      using tk by (simp add: is_topk_def)
    have sc: "map (\<lambda>j. map sig ?r ! j) (take ?k (argsort_desc (map sig ?r)))
        = map (\<lambda>j. sig (?r ! j)) (take ?k (argsort_desc (map sig ?r)))"
      using sub by (intro map_cong) auto
    have desc: "sorted_wrt (\<ge>) (map (\<lambda>j. map sig ?r ! j) (take ?k (argsort_desc (map sig ?r))))"
      using tk by (rule is_topk_descending)
    have single: "prefilter self sig (t\<lparr>logits := [?r]\<rparr>)
        = Inr ([map (\<lambda>j. map sig ?r ! j) (take ?k (argsort_desc (map sig ?r)))],
               [take ?k (argsort_desc (map sig ?r))])"
      using prefilter_ok [of "t\<lparr>logits := [?r]\<rparr>" self sig] len by simp
    have all: "mset (take ?k (argsort_desc (map sig ?r))) = mset [0..<?n]"
      if "?n \<le> pre_nms_top_n self"
      using is_topk_all [OF tk] that len by simp
    show ?thesis
      using i tk sc desc single all by simp
  qed
  show ?thesis
  proof (intro exI [of _ ?scores] exI [of _ ?idx] conjI)
    show "prefilter self sig t = Inr (?scores, ?idx)" by (rule pre)
    show "\<forall>i < length (logits t).
          is_topk (map sig (logits t ! i)) ?k (?idx ! i)
          \<and> ?scores ! i = map (\<lambda>j. sig (logits t ! i ! j)) (?idx ! i)
          \<and> sorted_wrt (\<ge>) (?scores ! i)
          \<and> prefilter self sig (t\<lparr>logits := [logits t ! i]\<rparr>) = Inr ([?scores ! i], [?idx ! i])
          \<and> (?n \<le> pre_nms_top_n self \<longrightarrow> mset (?idx ! i) = mset [0..<?n])"
      by (intro allI impI) (rule row)
  qed simp_all
qed

text \<open>
  C2: when every row of the flattened score tensor has \<open>A * H * W\<close> entries, the
  pre-filter succeeds and gives, for every image, \<open>min(pre_nms_top_n, A * H * W)\<close>
  indices of that image's sigmoid scores, in descending order of score with ties in
  original index order, every index left out ranking after every index kept, with the
  scores at those indices.  The row of an image is what the pre-filter returns on that
  image alone.  When \<open>pre_nms_top_n\<close> is at least \<open>A * H * W\<close> the indices of an
  image are a permutation of all of them.
\<close>

theorem prefilter_selects_topk:
  assumes "\<forall>r \<in> set (logits t). length r = dim_A t * dim_H t * dim_W t"
  shows "\<exists>scores idx. prefilter self sig t = Inr (scores, idx)
     \<and> length scores = length (logits t) \<and> length idx = length (logits t)
     \<and> (\<forall>i < length (logits t).
          is_topk (map sig (logits t ! i))
            (min (pre_nms_top_n self) (dim_A t * dim_H t * dim_W t)) (idx ! i)
          \<and> scores ! i = map (\<lambda>j. sig (logits t ! i ! j)) (idx ! i)
          \<and> sorted_wrt (\<ge>) (scores ! i)
          \<and> prefilter self sig (t\<lparr>logits := [logits t ! i]\<rparr>) = Inr ([scores ! i], [idx ! i])
          \<and> (dim_A t * dim_H t * dim_W t \<le> pre_nms_top_n self \<longrightarrow>
               mset (idx ! i) = mset [0..<dim_A t * dim_H t * dim_W t]))"
  using assms by (rule prefilter_rows)

theorem prefilter_selects_topk_witness:
  "list_all (\<lambda>r. length r
       = dim_A example_objectness * dim_H example_objectness * dim_W example_objectness)
     (logits example_objectness)
   \<and> prefilter example_processor (\<lambda>x. x) example_objectness
       = Inr ([[9/10, 8/10], [7/10, 5/10]], [[0, 2], [2, 0]])
   \<and> is_topk [5/10, 5/10, 7/10, 5/10] 2 [2, 0]"
proof -
  have h: "\<forall>r \<in> set (logits example_objectness).
       length r = dim_A example_objectness * dim_H example_objectness * dim_W example_objectness"
    by (simp add: example_objectness_def)
  from prefilter_selects_topk [OF h, of example_processor "\<lambda>x. x"]
  obtain scores idx where
    a: "prefilter example_processor (\<lambda>x. x) example_objectness = Inr (scores, idx)" and
    b: "\<forall>i < length (logits example_objectness).
          is_topk (map (\<lambda>x. x) (logits example_objectness ! i))
            (min (pre_nms_top_n example_processor)
               (dim_A example_objectness * dim_H example_objectness * dim_W example_objectness))
            (idx ! i)"
    by blast
  from a have idx: "idx = [[0, 2], [2, 0]]" by (simp add: example_prefilter)
  have "1 < length (logits example_objectness)" by (simp add: example_objectness_def)
  with b have "is_topk (map (\<lambda>x. x) (logits example_objectness ! 1))
            (min (pre_nms_top_n example_processor)
               (dim_A example_objectness * dim_H example_objectness * dim_W example_objectness))
            (idx ! 1)"
    by blast
  then have "is_topk [5/10, 5/10, 7/10, 5/10] 2 [2, 0]"
    by (simp add: example_objectness_def example_processor_def idx)
  moreover have "list_all (\<lambda>r. length r
       = dim_A example_objectness * dim_H example_objectness * dim_W example_objectness)
     (logits example_objectness)"
    using h by (simp only: list_all_iff)
  ultimately show ?thesis using example_prefilter by blast
qed

section \<open>Selection over all levels, per image\<close>

lemma take_idx_ok: "set idx \<subseteq> {0..<length xs} \<Longrightarrow> take_idx xs idx = Inr (map (\<lambda>i. xs ! i) idx)"
  by (auto simp: take_idx_def)

lemma getitem_index_ok:
  assumes "aligned bl" "set idx \<subseteq> {0..<len bl}"
  shows "getitem_index bl idx = Inr (reindexed bl idx)"
proof -
  have b: "take_idx (bbox bl) idx = Inr (map (\<lambda>j. bbox bl ! j) idx)"
    using assms(2) by (simp add: take_idx_ok len_def)
  have "emap (\<lambda>(n, d). ebind (take_idx d idx) (\<lambda>d'. Inr (n, d'))) (extra_fields bl)
      = Inr (map (\<lambda>f. (fst f, map (\<lambda>j. snd f ! j) idx)) (extra_fields bl))"
  proof (rule emap_all_Inr)
    fix f assume "f \<in> set (extra_fields bl)"
    with assms have "set idx \<subseteq> {0..<length (snd f)}" by (simp add: aligned_def)
    then show "(case f of (n, d) \<Rightarrow> ebind (take_idx d idx) (\<lambda>d'. Inr (n, d')))
        = Inr (fst f, map (\<lambda>j. snd f ! j) idx)"
      by (cases f) (simp add: take_idx_ok ebind_def)
  qed
  with b show ?thesis by (simp add: getitem_index_def ebind_def reindexed_def)
qed

lemma scored_get_field:
  assumes "scored bl"
  obtains obj where "get_field bl ''objectness'' = Inr obj" "length obj = len bl"
    "map_of (extra_fields bl) ''objectness'' = Some obj"
proof -
  from assms have "''objectness'' \<in> fst ` set (extra_fields bl)"
    by (simp add: scored_def fields_of_def)
  then obtain obj where m: "map_of (extra_fields bl) ''objectness'' = Some obj"
    by (metis domD dom_map_of_conv_image_fst)
  then have "(''objectness'', obj) \<in> set (extra_fields bl)" by (rule map_of_SomeD)
  with assms have "length obj = len bl" by (fastforce simp: scored_def aligned_def)
  with m that show ?thesis by (simp add: get_field_def)
qed

lemma map_of_map_snd:
  "map_of al name = Some d \<Longrightarrow> map_of (map (\<lambda>f. (fst f, g (snd f))) al) name = Some (g d)"
  by (induction al) (auto split: if_splits)

lemma get_field_reindexed:
  "map_of (extra_fields bl) name = Some d \<Longrightarrow>
   get_field (reindexed bl idx) name = Inr (map (\<lambda>j. d ! j) idx)"
  using map_of_map_snd [of "extra_fields bl" name d "\<lambda>d. map (\<lambda>j. d ! j) idx"]
  by (simp add: get_field_def reindexed_def)

lemma select_one_image:
  assumes np: "\<not> (training self \<and> fpn_post_nms_per_batch self)" and sc: "scored b"
    and m: "map_of (extra_fields b) ''objectness'' = Some obj"
  shows "ebind (get_field b ''objectness'') (\<lambda>objectness.
          let k = min (fpn_post_nms_top_n self) (length objectness) in
          ebind (topk objectness k) (\<lambda>(_, inds_sorted). getitem_index b inds_sorted))
     = Inr (reindexed b (take (min (fpn_post_nms_top_n self) (len b)) (argsort_desc obj)))"
proof -
  let ?k = "min (fpn_post_nms_top_n self) (len b)"
  from sc m have len: "length obj = len b"
    using map_of_SomeD [OF m] by (fastforce simp: scored_def aligned_def)
  have tk: "is_topk obj ?k (take ?k (argsort_desc obj))"
    by (rule is_topk_take) (simp add: len)
  then have sub: "set (take ?k (argsort_desc obj)) \<subseteq> {0..<len b}"
    by (simp add: is_topk_def len)
  have al: "aligned b" using sc by (simp add: scored_def)
  show ?thesis
    using m by (simp add: get_field_def ebind_def Let_def len topk_ok
        getitem_index_ok [OF al sub])
qed

lemma select_per_image_ok:
  assumes np: "\<not> (training self \<and> fpn_post_nms_per_batch self)"
    and sc: "\<forall>b \<in> set boxlists. scored b"
  shows "select_over_all_levels self boxlists = Inr (map (select_image self) boxlists)"
proof -
  have "emap (\<lambda>b.
          ebind (get_field b ''objectness'') (\<lambda>objectness.
          let k = min (fpn_post_nms_top_n self) (length objectness) in
          ebind (topk objectness k) (\<lambda>(_, inds_sorted). getitem_index b inds_sorted)))
          boxlists = Inr (map (select_image self) boxlists)"
  proof (rule emap_all_Inr)
    fix b assume "b \<in> set boxlists"
    with sc have s: "scored b" by blast
    then obtain obj where m: "map_of (extra_fields b) ''objectness'' = Some obj"
      by (rule scored_get_field)
    show "ebind (get_field b ''objectness'') (\<lambda>objectness.
          let k = min (fpn_post_nms_top_n self) (length objectness) in
          ebind (topk objectness k) (\<lambda>(_, inds_sorted). getitem_index b inds_sorted))
        = Inr (select_image self b)"
      using select_one_image [OF np s m] by (simp add: select_image_def m)
  qed
  moreover have "(training self \<and> fpn_post_nms_per_batch self) = False"
    using np by simp
  ultimately show ?thesis
    unfolding select_over_all_levels_def by (simp only: if_False)
qed

lemma example_scored: "\<forall>b \<in> set example_boxlists. scored b"
  by (simp add: example_boxlists_def scored_def aligned_def len_def fields_of_def)

lemma example_select_per_image:
  "select_over_all_levels (example_processor\<lparr>training := False\<rparr>) example_boxlists =
     Inr [\<lparr>bbox = [(2, 2, 4, 4), (5, 5, 7, 7)], image_size = (10, 10), mode = ''xyxy'',
            extra_fields = [(''objectness'', [9/10, 5/10])]\<rparr>,
          \<lparr>bbox = [(1, 1, 3, 3), (6, 6, 9, 9)], image_size = (10, 10), mode = ''xyxy'',
            extra_fields = [(''objectness'', [7/10, 6/10])]\<rparr>]"
  by (simp add: select_over_all_levels_def example_processor_def example_boxlists_def
      get_field_def ebind_def topk_def argsort_desc_def
      getitem_index_def take_idx_def)

text \<open>
  C5: outside training with the batch-wide policy (inference, or training with
  \<open>fpn_post_nms_per_batch\<close> false), on collections that carry aligned \<open>objectness\<close>
  fields, \<open>select_over_all_levels\<close> succeeds and every image is selected on its own:
  its output holds the boxes at the top \<open>min(fpn_post_nms_top_n, number of candidates)\<close>
  indices of its own scores, in descending order of objectness, so has at most
  \<open>fpn_post_nms_top_n\<close> boxes, and is what the function returns on that image alone.
\<close>

theorem select_per_image:
  assumes np: "\<not> (training self \<and> fpn_post_nms_per_batch self)"
    and sc: "\<forall>b \<in> set boxlists. scored b"
  shows "\<exists>out. select_over_all_levels self boxlists = Inr out \<and> length out = length boxlists
    \<and> (\<forall>i < length boxlists. \<exists>obj idx.
         get_field (boxlists ! i) ''objectness'' = Inr obj
         \<and> is_topk obj (min (fpn_post_nms_top_n self) (len (boxlists ! i))) idx
         \<and> bbox (out ! i) = map (\<lambda>j. bbox (boxlists ! i) ! j) idx
         \<and> get_field (out ! i) ''objectness'' = Inr (map (\<lambda>j. obj ! j) idx)
         \<and> sorted_wrt (\<ge>) (map (\<lambda>j. obj ! j) idx)
         \<and> len (out ! i) = min (fpn_post_nms_top_n self) (len (boxlists ! i))
         \<and> len (out ! i) \<le> fpn_post_nms_top_n self
         \<and> select_over_all_levels self [boxlists ! i] = Inr [out ! i])"
proof (intro exI [of _ "map (select_image self) boxlists"] conjI allI impI)
  show "select_over_all_levels self boxlists = Inr (map (select_image self) boxlists)"
    using np sc by (rule select_per_image_ok)
  show "length (map (select_image self) boxlists) = length boxlists" by simp
next
  fix i assume i: "i < length boxlists"
  let ?b = "boxlists ! i"
  let ?k = "min (fpn_post_nms_top_n self) (len ?b)"
  from i sc have s: "scored ?b" by simp
  then obtain obj where g: "get_field ?b ''objectness'' = Inr obj" and len: "length obj = len ?b"
    and m: "map_of (extra_fields ?b) ''objectness'' = Some obj"
    by (rule scored_get_field)
  let ?idx = "take ?k (argsort_desc obj)"
  have out: "map (select_image self) boxlists ! i = reindexed ?b ?idx"
    using i by (simp add: select_image_def m)
  have tk: "is_topk obj ?k ?idx"
    by (rule is_topk_take) (simp add: len)
  have one: "select_over_all_levels self [?b] = Inr [reindexed ?b ?idx]"
    using select_per_image_ok [OF np, of "[?b]"] s by (simp add: select_image_def m)
  have lk: "length ?idx = ?k" using tk by (simp add: is_topk_def)
  show "\<exists>obj idx.
         get_field ?b ''objectness'' = Inr obj
         \<and> is_topk obj ?k idx
         \<and> bbox (map (select_image self) boxlists ! i) = map (\<lambda>j. bbox ?b ! j) idx
         \<and> get_field (map (select_image self) boxlists ! i) ''objectness'' = Inr (map (\<lambda>j. obj ! j) idx)
         \<and> sorted_wrt (\<ge>) (map (\<lambda>j. obj ! j) idx)
         \<and> len (map (select_image self) boxlists ! i) = ?k
         \<and> len (map (select_image self) boxlists ! i) \<le> fpn_post_nms_top_n self
         \<and> select_over_all_levels self [?b] = Inr [map (select_image self) boxlists ! i]"
    unfolding out
  proof (intro exI [of _ obj] exI [of _ ?idx] conjI)
    show "get_field ?b ''objectness'' = Inr obj" by (rule g)
    show "is_topk obj ?k ?idx" by (rule tk)
    show "bbox (reindexed ?b ?idx) = map (\<lambda>j. bbox ?b ! j) ?idx" by (simp add: reindexed_def)
    show "get_field (reindexed ?b ?idx) ''objectness'' = Inr (map (\<lambda>j. obj ! j) ?idx)"
      using m by (rule get_field_reindexed)
    show "sorted_wrt (\<ge>) (map (\<lambda>j. obj ! j) ?idx)" using tk by (rule is_topk_descending)
    show "len (reindexed ?b ?idx) = ?k" using lk by (simp add: reindexed_def len_def)
    show "len (reindexed ?b ?idx) \<le> fpn_post_nms_top_n self"
      using lk by (simp add: reindexed_def len_def)
    show "select_over_all_levels self [?b] = Inr [reindexed ?b ?idx]" by (rule one)
  qed
qed


theorem select_per_image_witness:
  "\<not> (training (example_processor\<lparr>training := False\<rparr>)
        \<and> fpn_post_nms_per_batch (example_processor\<lparr>training := False\<rparr>))
   \<and> list_all scored example_boxlists
   \<and> (\<exists>out. select_over_all_levels (example_processor\<lparr>training := False\<rparr>) example_boxlists
          = Inr out
        \<and> map bbox out = [[(2, 2, 4, 4), (5, 5, 7, 7)], [(1, 1, 3, 3), (6, 6, 9, 9)]]
        \<and> (\<forall>i < length example_boxlists.
              len (out ! i) \<le> fpn_post_nms_top_n (example_processor\<lparr>training := False\<rparr>)))"
proof -
  let ?p = "example_processor\<lparr>training := False\<rparr>"
  have np: "\<not> (training ?p \<and> fpn_post_nms_per_batch ?p)" by simp
  from select_per_image [OF np example_scored]
  obtain out where a: "select_over_all_levels ?p example_boxlists = Inr out"
    and b: "\<forall>i < length example_boxlists. len (out ! i) \<le> fpn_post_nms_top_n ?p"
    by blast
  from a have c: "map bbox out = [[(2, 2, 4, 4), (5, 5, 7, 7)], [(1, 1, 3, 3), (6, 6, 9, 9)]]"
    unfolding example_select_per_image by auto
  have sc: "list_all scored example_boxlists"
    using example_scored by (simp add: list_all_iff)
  show ?thesis
    by (intro conjI exI [of _ out] np sc a b c)
qed

section \<open>Selection over all levels, batch-wide\<close>

lemma length_scatter_ones: "length (scatter_ones m idx) = length m"
  unfolding scatter_ones_def by (induction idx arbitrary: m) simp_all

lemma nth_scatter_ones:
  "g < length m \<Longrightarrow> scatter_ones m idx ! g = (if g \<in> set idx then 1 else m ! g)"
  unfolding scatter_ones_def
proof (induction idx arbitrary: m)
  case Nil
  show ?case by simp
next
  case (Cons i idx)
  from Cons.prems have "g < length (m[i := 1])" by simp
  from Cons.IH [OF this] Cons.prems show ?case
    by (auto simp: nth_list_update)
qed

lemma length_split_sizes: "length (split_sizes xs ns) = length ns"
  by (induction ns arbitrary: xs) simp_all

lemma nth_split_sizes:
  "i < length ns \<Longrightarrow>
   split_sizes xs ns ! i = take (ns ! i) (drop (sum_list (take i ns)) xs)"
proof (induction ns arbitrary: xs i)
  case Nil
  then show ?case by simp
next
  case (Cons n ns)
  show ?case
  proof (cases i)
    case 0
    then show ?thesis by simp
  next
    case (Suc j)
    with Cons.prems have "j < length ns" by simp
    from Cons.IH [OF this, of "drop n xs"] Suc show ?thesis
      by (simp add: add.commute)
  qed
qed

lemma concat_split_sizes:
  "sum_list ns = length xs \<Longrightarrow> concat (split_sizes xs ns) = xs"
proof (induction ns arbitrary: xs)
  case Nil
  then show ?case by simp
next
  case (Cons n ns)
  from Cons.prems have "sum_list ns = length (drop n xs)" by simp
  from Cons.IH [OF this] show ?case by simp
qed

lemma take_mask_ok:
  "length m = length xs \<Longrightarrow> take_mask xs m = Inr (map fst (filter (\<lambda>p. snd p \<noteq> 0) (zip xs m)))"
  by (simp add: take_mask_def)

lemma getitem_mask_ok:
  assumes "aligned bl" "length m = len bl"
  shows "getitem_mask bl m = Inr (masked bl m)"
proof -
  have b: "take_mask (bbox bl) m = Inr (map fst (filter (\<lambda>p. snd p \<noteq> 0) (zip (bbox bl) m)))"
    using assms(2) by (simp add: take_mask_ok len_def)
  have "emap (\<lambda>(n, d). ebind (take_mask d m) (\<lambda>d'. Inr (n, d'))) (extra_fields bl)
      = Inr (map (\<lambda>f. (fst f, map fst (filter (\<lambda>p. snd p \<noteq> 0) (zip (snd f) m)))) (extra_fields bl))"
  proof (rule emap_all_Inr)
    fix f assume "f \<in> set (extra_fields bl)"
    with assms have "length m = length (snd f)" by (simp add: aligned_def)
    then show "(case f of (n, d) \<Rightarrow> ebind (take_mask d m) (\<lambda>d'. Inr (n, d')))
        = Inr (fst f, map fst (filter (\<lambda>p. snd p \<noteq> 0) (zip (snd f) m)))"
      by (cases f) (simp add: take_mask_ok ebind_def)
  qed
  with b show ?thesis by (simp add: getitem_mask_def ebind_def masked_def)
qed

lemma mask_filter_conv:
  assumes "length m = length xs"
  shows "map fst (filter (\<lambda>p. snd p \<noteq> 0) (zip xs m))
     = map (\<lambda>j. xs ! j) (filter (\<lambda>j. m ! j \<noteq> 0) [0..<length xs])"
proof -
  have "zip xs m = map (\<lambda>j. (xs ! j, m ! j)) [0..<length xs]"
    using assms by (intro nth_equalityI) simp_all
  then show ?thesis by (simp add: filter_map comp_def)
qed

lemma length_mask_filter:
  "length m = length xs \<Longrightarrow>
   length (map fst (filter (\<lambda>p. snd p \<noteq> 0) (zip xs m))) = length (filter (\<lambda>w. w \<noteq> 0) m)"
proof (induction xs arbitrary: m)
  case Nil
  then show ?case by simp
next
  case (Cons x xs)
  then obtain w ws where "m = w # ws" by (cases m) auto
  with Cons show ?case by simp
qed

lemma count_selected:
  fixes mask :: "8 word list"
  assumes "distinct sel" "set sel \<subseteq> {0..<length mask}"
    and "\<forall>g < length mask. mask ! g = (if g \<in> set sel then 1 else 0)"
  shows "length (filter (\<lambda>w. w \<noteq> 0) mask) = length sel"
proof -
  have "{i. i < length mask \<and> mask ! i \<noteq> 0} = set sel"
    using assms(2,3) by (auto split: if_splits)
  then have "length (filter (\<lambda>w. w \<noteq> 0) mask) = card (set sel)"
    by (simp add: length_filter_conv_card)
  with assms(1) show ?thesis by (simp add: distinct_card)
qed


lemma scored_objectness_of:
  assumes "scored b"
  shows "get_field b ''objectness'' = Inr (objectness_of b)"
    and "length (objectness_of b) = len b"
    and "map_of (extra_fields b) ''objectness'' = Some (objectness_of b)"
proof -
  from assms obtain obj where g: "get_field b ''objectness'' = Inr obj"
    and l: "length obj = len b" and m: "map_of (extra_fields b) ''objectness'' = Some obj"
    by (rule scored_get_field)
  from g have o: "objectness_of b = obj" by (simp add: objectness_of_def)
  show "get_field b ''objectness'' = Inr (objectness_of b)" using g o by simp
  show "length (objectness_of b) = len b" using l o by simp
  show "map_of (extra_fields b) ''objectness'' = Some (objectness_of b)" using m o by simp
qed

lemma length_pooled:
  "\<forall>b \<in> set boxlists. scored b \<Longrightarrow>
   length (concat (map objectness_of boxlists)) = sum_list (map len boxlists)"
  by (induction boxlists) (simp_all add: scored_objectness_of(2))

lemma nth_concat_offset:
  "i < length xss \<Longrightarrow> j < length (xss ! i) \<Longrightarrow>
   concat xss ! (sum_list (map length (take i xss)) + j) = xss ! i ! j"
proof (induction xss arbitrary: i)
  case Nil
  then show ?case by simp
next
  case (Cons xs xss)
  show ?case
  proof (cases i)
    case 0
    with Cons.prems show ?thesis by (simp add: nth_append)
  next
    case (Suc i')
    with Cons.prems have "i' < length xss" "j < length (xss ! i')" by simp_all
    from Cons.IH [OF this] Suc show ?thesis
      by (simp add: nth_append add.assoc)
  qed
qed

lemma offset_bound:
  "i < length ns \<Longrightarrow> sum_list (take i ns) + ns ! i \<le> sum_list (ns :: nat list)"
proof -
  assume i: "i < length ns"
  have "sum_list (take (Suc i) ns) \<le> sum_list (take (Suc i) ns) + sum_list (drop (Suc i) ns)"
    by simp
  also have "\<dots> = sum_list ns"
    using sum_list_append [of "take (Suc i) ns" "drop (Suc i) ns"] by simp
  finally show ?thesis using i by (simp add: take_Suc_conv_app_nth)
qed

lemma batch_masks_nth:
  assumes sc: "\<forall>b \<in> set boxlists. scored b" and i: "i < length boxlists"
  shows "length (batch_masks self boxlists ! i) = len (boxlists ! i)"
    and "\<forall>j < len (boxlists ! i).
           batch_masks self boxlists ! i ! j
             = (if offset boxlists i + j \<in> set (batch_selection self boxlists) then 1 else 0)"
proof -
  let ?pooled = "concat (map objectness_of boxlists)"
  let ?sel = "batch_selection self boxlists"
  let ?mask = "scatter_ones (replicate (length ?pooled) 0) ?sel"
  let ?ns = "map len boxlists"
  have total: "length ?mask = sum_list ?ns"
    using sc by (simp add: length_scatter_ones length_pooled)
  have m: "batch_masks self boxlists ! i = take (?ns ! i) (drop (sum_list (take i ?ns)) ?mask)"
    using i by (simp add: batch_masks_def nth_split_sizes)
  have bound: "sum_list (take i ?ns) + ?ns ! i \<le> sum_list ?ns"
    using i by (intro offset_bound) simp
  have off: "offset boxlists i = sum_list (take i ?ns)"
    by (simp add: offset_def take_map)
  show "length (batch_masks self boxlists ! i) = len (boxlists ! i)"
    using m total bound i by simp
  show "\<forall>j < len (boxlists ! i).
           batch_masks self boxlists ! i ! j
             = (if offset boxlists i + j \<in> set ?sel then 1 else 0)"
  proof (intro allI impI)
    fix j assume j: "j < len (boxlists ! i)"
    with bound i have g: "offset boxlists i + j < length ?mask"
      by (simp add: total off)
    have "batch_masks self boxlists ! i ! j = ?mask ! (offset boxlists i + j)"
      using m j i g by (simp add: off)
    also have "\<dots> = (if offset boxlists i + j \<in> set ?sel then 1 else replicate (length ?pooled) 0 ! (offset boxlists i + j))"
      using g by (intro nth_scatter_ones) (simp add: length_scatter_ones)
    also have "\<dots> = (if offset boxlists i + j \<in> set ?sel then 1 else 0)"
      using g by (simp add: length_scatter_ones)
    finally show "batch_masks self boxlists ! i ! j
             = (if offset boxlists i + j \<in> set ?sel then 1 else 0)" .
  qed
qed

lemma select_per_batch_ok:
  assumes tr: "training self" "fpn_post_nms_per_batch self"
    and ne: "boxlists \<noteq> []" and sc: "\<forall>b \<in> set boxlists. scored b"
  shows "select_over_all_levels self boxlists =
     Inr (map (\<lambda>p. masked (fst p) (snd p)) (zip boxlists (batch_masks self boxlists)))"
proof -
  let ?pooled = "concat (map objectness_of boxlists)"
  let ?k = "min (fpn_post_nms_top_n self) (length ?pooled)"
  let ?sel = "batch_selection self boxlists"
  let ?mask = "scatter_ones (replicate (length ?pooled) 0) ?sel"
  have f: "emap (\<lambda>b. get_field b ''objectness'') boxlists = Inr (map objectness_of boxlists)"
    using sc by (intro emap_all_Inr) (simp add: scored_objectness_of(1))
  have c: "tensor_cat (map objectness_of boxlists) = Inr ?pooled"
    using ne by (simp add: tensor_cat_def)
  have t: "topk ?pooled ?k = Inr (map (\<lambda>i. ?pooled ! i) ?sel, ?sel)"
    unfolding batch_selection_def by (rule topk_ok) simp
  have sp: "tensor_split ?mask (map len boxlists) = Inr (batch_masks self boxlists)"
    using sc by (simp add: tensor_split_def batch_masks_def length_scatter_ones length_pooled)
  have lm: "length (batch_masks self boxlists) = length boxlists"
    by (simp add: batch_masks_def length_split_sizes)
  have g: "emap (\<lambda>(b, m). getitem_mask b m) (zip boxlists (batch_masks self boxlists))
      = Inr (map (\<lambda>p. masked (fst p) (snd p)) (zip boxlists (batch_masks self boxlists)))"
  proof (rule emap_all_Inr)
    fix p assume "p \<in> set (zip boxlists (batch_masks self boxlists))"
    then obtain i where i: "i < length boxlists" and p: "p = (boxlists ! i, batch_masks self boxlists ! i)"
      by (auto simp: in_set_zip)
    from i sc have "aligned (boxlists ! i)" by (simp add: scored_def)
    moreover have "length (batch_masks self boxlists ! i) = len (boxlists ! i)"
      using sc i by (rule batch_masks_nth(1))
    ultimately show "(case p of (b, m) \<Rightarrow> getitem_mask b m) = Inr (masked (fst p) (snd p))"
      by (simp add: p getitem_mask_ok)
  qed
  show ?thesis
    unfolding select_over_all_levels_def
    by (simp add: tr f c t sp g ebind_def Let_def)
qed


lemma masked_by_selection:
  assumes sc: "\<forall>b \<in> set boxlists. scored b" and i: "i < length boxlists"
    and xs: "length xs = len (boxlists ! i)"
  shows "map fst (filter (\<lambda>p. snd p \<noteq> 0) (zip xs (batch_masks self boxlists ! i)))
     = map (\<lambda>j. xs ! j)
         (filter (\<lambda>j. offset boxlists i + j \<in> set (batch_selection self boxlists))
            [0..<len (boxlists ! i)])"
proof -
  let ?m = "batch_masks self boxlists ! i"
  have lm: "length ?m = length xs" using batch_masks_nth(1) [OF sc i] xs by simp
  have "filter (\<lambda>j. ?m ! j \<noteq> 0) [0..<length xs]
      = filter (\<lambda>j. offset boxlists i + j \<in> set (batch_selection self boxlists)) [0..<length xs]"
    using batch_masks_nth(2) [OF sc i, of self] xs by (intro filter_cong) auto
  with mask_filter_conv [OF lm] xs show ?thesis by simp
qed

lemma total_selected:
  assumes sc: "\<forall>b \<in> set boxlists. scored b"
  shows "sum_list (map len (map (\<lambda>p. masked (fst p) (snd p))
                              (zip boxlists (batch_masks self boxlists))))
     = min (fpn_post_nms_top_n self) (sum_list (map len boxlists))"
proof -
  let ?pooled = "concat (map objectness_of boxlists)"
  let ?k = "min (fpn_post_nms_top_n self) (length ?pooled)"
  let ?sel = "batch_selection self boxlists"
  let ?mask = "scatter_ones (replicate (length ?pooled) 0) ?sel"
  let ?ms = "batch_masks self boxlists"
  let ?nz = "\<lambda>w :: 8 word. w \<noteq> 0"
  have total: "length ?mask = sum_list (map len boxlists)"
    using sc by (simp add: length_scatter_ones length_pooled)
  have lms: "length ?ms = length boxlists"
    by (simp add: batch_masks_def length_split_sizes)
  have "map len (map (\<lambda>p. masked (fst p) (snd p)) (zip boxlists ?ms))
      = map (\<lambda>m. length (filter ?nz m)) ?ms"
  proof (intro nth_equalityI)
    show "length (map len (map (\<lambda>p. masked (fst p) (snd p)) (zip boxlists ?ms)))
        = length (map (\<lambda>m. length (filter ?nz m)) ?ms)"
      using lms by simp
  next
    fix i assume "i < length (map len (map (\<lambda>p. masked (fst p) (snd p)) (zip boxlists ?ms)))"
    then have i: "i < length boxlists" using lms by simp
    have "length (?ms ! i) = length (bbox (boxlists ! i))"
      using batch_masks_nth(1) [OF sc i] by (simp add: len_def)
    from length_mask_filter [OF this] i lms
    show "map len (map (\<lambda>p. masked (fst p) (snd p)) (zip boxlists ?ms)) ! i
        = map (\<lambda>m. length (filter ?nz m)) ?ms ! i"
      by (simp add: masked_def len_def)
  qed
  then have "sum_list (map len (map (\<lambda>p. masked (fst p) (snd p)) (zip boxlists ?ms)))
      = sum_list (map length (map (filter ?nz) ?ms))"
    by (simp add: comp_def)
  also have "\<dots> = length (filter ?nz (concat ?ms))"
    by (simp only: length_concat filter_concat)
  also have "concat ?ms = ?mask"
    unfolding batch_masks_def using total by (intro concat_split_sizes) simp
  also have "length (filter ?nz ?mask) = length ?sel"
  proof (rule count_selected)
    have tk: "is_topk ?pooled ?k ?sel"
      unfolding batch_selection_def by (rule is_topk_take) simp
    show "distinct ?sel" using tk by (rule is_topk_distinct)
    show "set ?sel \<subseteq> {0..<length ?mask}"
      using tk by (simp add: is_topk_def length_scatter_ones)
    show "\<forall>g < length ?mask. ?mask ! g = (if g \<in> set ?sel then 1 else 0)"
      by (simp add: length_scatter_ones nth_scatter_ones)
  qed
  also have "length ?sel = ?k"
    by (simp add: batch_selection_def length_argsort_desc)
  finally show ?thesis using sc by (simp add: length_pooled)
qed

lemma scenario_scored: "\<forall>b \<in> set scenario_boxlists. scored b"
  by (simp add: scenario_boxlists_def scored_def aligned_def len_def fields_of_def)

lemma scenario_select:
  "select_over_all_levels scenario_processor scenario_boxlists =
     Inr [\<lparr>bbox = [(0, 0, 1, 1), (0, 0, 2, 2), (0, 0, 3, 3), (0, 0, 4, 4)],
            image_size = (10, 10), mode = ''xyxy'',
            extra_fields = [(''objectness'', [9/10, 8/10, 7/10, 6/10])]\<rparr>,
          \<lparr>bbox = [(1, 1, 3, 3), (1, 1, 5, 5)],
            image_size = (10, 10), mode = ''xyxy'',
            extra_fields = [(''objectness'', [95/100, 85/100])]\<rparr>]"
  by (simp add: select_over_all_levels_def scenario_processor_def scenario_boxlists_def
      get_field_def ebind_def tensor_cat_def topk_def argsort_desc_def len_def
      scatter_ones_def tensor_split_def getitem_mask_def take_mask_def eval_nat_numeral)

text \<open>
  C1: in training with the batch-wide policy, on a nonempty batch of collections with
  aligned \<open>objectness\<close> fields, \<open>select_over_all_levels\<close> succeeds.  The scores of all
  images are pooled in image order; \<open>sel\<close> is the top
  \<open>min(fpn_post_nms_top_n, total)\<close> of the pooled scores, ties in flattened index
  order; image \<open>i\<close> keeps exactly its boxes whose pooled position is in \<open>sel\<close>, with
  their scores; the outputs together hold \<open>min(fpn_post_nms_top_n, total)\<close> boxes, so
  at most \<open>fpn_post_nms_top_n\<close>.  With more than one level this is what \<open>forward\<close>
  selects.
\<close>

theorem select_per_batch:
  assumes tr: "training self" "fpn_post_nms_per_batch self"
    and ne: "boxlists \<noteq> []" and sc: "\<forall>b \<in> set boxlists. scored b"
  shows "\<exists>out sel. select_over_all_levels self boxlists = Inr out
     \<and> length out = length boxlists
     \<and> is_topk (concat (map objectness_of boxlists))
          (min (fpn_post_nms_top_n self) (sum_list (map len boxlists))) sel
     \<and> (\<forall>i < length boxlists. \<forall>j < len (boxlists ! i).
           concat (map objectness_of boxlists) ! (offset boxlists i + j)
             = objectness_of (boxlists ! i) ! j)
     \<and> (\<forall>i < length boxlists.
           bbox (out ! i) = map (\<lambda>j. bbox (boxlists ! i) ! j)
             (filter (\<lambda>j. offset boxlists i + j \<in> set sel) [0..<len (boxlists ! i)])
         \<and> get_field (out ! i) ''objectness'' = Inr (map (\<lambda>j. objectness_of (boxlists ! i) ! j)
             (filter (\<lambda>j. offset boxlists i + j \<in> set sel) [0..<len (boxlists ! i)])))
     \<and> sum_list (map len out) = min (fpn_post_nms_top_n self) (sum_list (map len boxlists))
     \<and> sum_list (map len out) \<le> fpn_post_nms_top_n self
     \<and> (\<forall>num_levels > 1. aggregate self num_levels boxlists None = Inr out)"
proof -
  let ?pooled = "concat (map objectness_of boxlists)"
  let ?sel = "batch_selection self boxlists"
  let ?ms = "batch_masks self boxlists"
  let ?out = "map (\<lambda>p. masked (fst p) (snd p)) (zip boxlists ?ms)"
  have ok: "select_over_all_levels self boxlists = Inr ?out"
    using tr ne sc by (rule select_per_batch_ok)
  have lms: "length ?ms = length boxlists"
    by (simp add: batch_masks_def length_split_sizes)
  have len: "length ?out = length boxlists" using lms by simp
  have tk: "is_topk ?pooled (min (fpn_post_nms_top_n self) (sum_list (map len boxlists))) ?sel"
  proof -
    have "is_topk ?pooled (min (fpn_post_nms_top_n self) (length ?pooled)) ?sel"
      unfolding batch_selection_def by (rule is_topk_take) simp
    then show ?thesis using sc by (simp add: length_pooled)
  qed
  have flat: "\<forall>i < length boxlists. \<forall>j < len (boxlists ! i).
      ?pooled ! (offset boxlists i + j) = objectness_of (boxlists ! i) ! j"
  proof (intro allI impI)
    fix i j assume i: "i < length boxlists" and j: "j < len (boxlists ! i)"
    have "map length (take i (map objectness_of boxlists)) = map len (take i boxlists)"
      using sc by (auto simp: take_map scored_objectness_of(2) dest: in_set_takeD)
    then have off: "offset boxlists i = sum_list (map length (take i (map objectness_of boxlists)))"
      by (simp add: offset_def)
    have "j < length (map objectness_of boxlists ! i)"
      using i j sc by (simp add: scored_objectness_of(2))
    from nth_concat_offset [OF _ this] i
    show "?pooled ! (offset boxlists i + j) = objectness_of (boxlists ! i) ! j"
      by (simp add: off)
  qed
  have img: "\<forall>i < length boxlists.
           bbox (?out ! i) = map (\<lambda>j. bbox (boxlists ! i) ! j)
             (filter (\<lambda>j. offset boxlists i + j \<in> set ?sel) [0..<len (boxlists ! i)])
         \<and> get_field (?out ! i) ''objectness'' = Inr (map (\<lambda>j. objectness_of (boxlists ! i) ! j)
             (filter (\<lambda>j. offset boxlists i + j \<in> set ?sel) [0..<len (boxlists ! i)]))"
  proof (intro allI impI)
    fix i assume i: "i < length boxlists"
    let ?b = "boxlists ! i"
    from i sc have s: "scored ?b" by simp
    have o: "?out ! i = masked ?b (?ms ! i)" using i lms by simp
    have b: "bbox (masked ?b (?ms ! i)) = map (\<lambda>j. bbox ?b ! j)
             (filter (\<lambda>j. offset boxlists i + j \<in> set ?sel) [0..<len ?b])"
      using masked_by_selection [OF sc i, of "bbox ?b" self]
      by (simp add: masked_def len_def)
    have "map_of (extra_fields (masked ?b (?ms ! i))) ''objectness''
        = Some (map fst (filter (\<lambda>p. snd p \<noteq> 0) (zip (objectness_of ?b) (?ms ! i))))"
      using map_of_map_snd [OF scored_objectness_of(3) [OF s],
          of "\<lambda>d. map fst (filter (\<lambda>p. snd p \<noteq> 0) (zip d (?ms ! i)))"]
      by (simp add: masked_def)
    then have f: "get_field (masked ?b (?ms ! i)) ''objectness''
        = Inr (map (\<lambda>j. objectness_of ?b ! j)
             (filter (\<lambda>j. offset boxlists i + j \<in> set ?sel) [0..<len ?b]))"
      using masked_by_selection [OF sc i scored_objectness_of(2) [OF s], of self]
      by (simp add: get_field_def)
    show "bbox (?out ! i) = map (\<lambda>j. bbox ?b ! j)
             (filter (\<lambda>j. offset boxlists i + j \<in> set ?sel) [0..<len ?b])
         \<and> get_field (?out ! i) ''objectness'' = Inr (map (\<lambda>j. objectness_of ?b ! j)
             (filter (\<lambda>j. offset boxlists i + j \<in> set ?sel) [0..<len ?b]))"
      unfolding o using b f by (rule conjI)
  qed
  have tot: "sum_list (map len ?out) = min (fpn_post_nms_top_n self) (sum_list (map len boxlists))"
    using sc by (rule total_selected)
  then have le: "sum_list (map len ?out) \<le> fpn_post_nms_top_n self" by simp
  have agg: "\<forall>num_levels > 1. aggregate self num_levels boxlists None = Inr ?out"
    by (simp add: aggregate_def ok ebind_def)
  show ?thesis
    by (intro exI [of _ ?out] exI [of _ ?sel] conjI ok len tk flat img tot le agg)
qed

theorem select_per_batch_witness:
  "training scenario_processor \<and> fpn_post_nms_per_batch scenario_processor
   \<and> scenario_boxlists \<noteq> [] \<and> list_all scored scenario_boxlists
   \<and> (\<exists>out. select_over_all_levels scenario_processor scenario_boxlists = Inr out
        \<and> map bbox out = [[(0, 0, 1, 1), (0, 0, 2, 2), (0, 0, 3, 3), (0, 0, 4, 4)],
                           [(1, 1, 3, 3), (1, 1, 5, 5)]]
        \<and> sum_list (map len out) = 6)"
proof -
  have t: "training scenario_processor" and p: "fpn_post_nms_per_batch scenario_processor"
    by (simp_all add: scenario_processor_def)
  have ne: "scenario_boxlists \<noteq> []" by (simp add: scenario_boxlists_def)
  from select_per_batch [OF t p ne scenario_scored]
  obtain out where a: "select_over_all_levels scenario_processor scenario_boxlists = Inr out"
    and b: "sum_list (map len out)
        = min (fpn_post_nms_top_n scenario_processor) (sum_list (map len scenario_boxlists))"
    by blast
  from a have c: "map bbox out = [[(0, 0, 1, 1), (0, 0, 2, 2), (0, 0, 3, 3), (0, 0, 4, 4)],
                           [(1, 1, 3, 3), (1, 1, 5, 5)]]"
    unfolding scenario_select by auto
  from b have d: "sum_list (map len out) = 6"
    by (simp add: scenario_processor_def scenario_boxlists_def len_def)
  have sc: "list_all scored scenario_boxlists"
    using scenario_scored by (simp add: list_all_iff)
  show ?thesis
    by (intro conjI exI [of _ out] t p ne sc a c d)
qed

section \<open>Ground-truth proposals\<close>

lemma copy_without_fields: "copy_with_fields t [] = Inr (t\<lparr>extra_fields := []\<rparr>)"
  by (simp add: copy_with_fields_def ebind_def)

lemma cat_with_gt:
  assumes "fields_of p = [''objectness'']"
  shows "cat_boxlist [p, add_field (t\<lparr>extra_fields := []\<rparr>) ''objectness'' (replicate (len t) 1)]
     = Inr (with_gt p t)"
proof -
  from assms obtain d where e: "extra_fields p = [(''objectness'', d)]"
    by (cases "extra_fields p") (auto simp: fields_of_def)
  then have o: "objectness_of p = d" by (simp add: objectness_of_def get_field_def)
  show ?thesis
    by (simp add: cat_boxlist_def fields_of_def add_field_def e o ebind_def get_field_def
        with_gt_def len_def)
qed

lemma add_gt_proposals_ok:
  assumes "proposals \<noteq> []" "\<forall>p \<in> set proposals. fields_of p = [''objectness'']"
  shows "add_gt_proposals proposals targets
     = Inr (map (\<lambda>pt. with_gt (fst pt) (snd pt)) (zip proposals targets))"
proof -
  let ?gt = "\<lambda>t. add_field (t\<lparr>extra_fields := []\<rparr>) ''objectness'' (replicate (len t) 1)"
  have c: "emap (\<lambda>t. copy_with_fields t []) targets = Inr (map (\<lambda>t. t\<lparr>extra_fields := []\<rparr>) targets)"
    by (intro emap_all_Inr) (rule copy_without_fields)
  have l: "map (\<lambda>g. add_field g ''objectness'' (replicate (len g) 1))
             (map (\<lambda>t. t\<lparr>extra_fields := []\<rparr>) targets) = map ?gt targets"
    by (simp add: len_def)
  have "emap (\<lambda>(proposal, gt_box). cat_boxlist [proposal, gt_box]) (zip proposals (map ?gt targets))
      = Inr (map (\<lambda>pg. with_gt (fst pg) (snd pg)) (zip proposals targets))"
    using assms(2)
  proof (induction proposals arbitrary: targets)
    case Nil
    show ?case by simp
  next
    case (Cons p ps)
    show ?case
    proof (cases targets)
      case Nil
      then show ?thesis by simp
    next
      case (Cons t ts)
      with Cons.IH [of ts] Cons.prems show ?thesis
        by (simp add: cat_with_gt)
    qed
  qed
  note z = this
  have "add_gt_proposals proposals targets
      = emap (\<lambda>(proposal, gt_box). cat_boxlist [proposal, gt_box])
          (zip proposals (map (\<lambda>g. add_field g ''objectness'' (replicate (len g) 1))
             (map (\<lambda>t. t\<lparr>extra_fields := []\<rparr>) targets)))"
    using assms(1) c by (simp add: add_gt_proposals_def ebind_def Let_def del: map_map)
  also have "\<dots> = emap (\<lambda>(proposal, gt_box). cat_boxlist [proposal, gt_box])
          (zip proposals (map ?gt targets))"
    by (simp only: l)
  finally show ?thesis by (simp only: z)
qed

lemma example_select_batch:
  "select_over_all_levels example_processor example_boxlists = Inr example_selected"
  by (simp add: select_over_all_levels_def example_processor_def example_boxlists_def
      example_selected_def get_field_def ebind_def tensor_cat_def topk_def argsort_desc_def
      len_def scatter_ones_def tensor_split_def getitem_mask_def take_mask_def eval_nat_numeral)

lemma example_aggregate:
  "aggregate example_processor 2 example_boxlists (Some example_targets) =
     Inr [\<lparr>bbox = [(2, 2, 4, 4), (1, 1, 2, 2)], image_size = (10, 10), mode = ''xyxy'',
            extra_fields = [(''objectness'', [9/10, 1])]\<rparr>,
          \<lparr>bbox = [(1, 1, 3, 3), (0, 0, 5, 5), (2, 2, 3, 3)], image_size = (10, 10),
            mode = ''xyxy'', extra_fields = [(''objectness'', [7/10, 1, 1])]\<rparr>]"
  unfolding aggregate_def example_select_batch
  by (simp add: example_processor_def example_selected_def example_targets_def ebind_def
      add_gt_proposals_def copy_with_fields_def add_field_def len_def cat_boxlist_def
      fields_of_def get_field_def)

text \<open>
  C6: let \<open>selected\<close> be the outcome of the selection over the levels (lines 190 to
  191), nonempty, carrying only \<open>objectness\<close>, with one target per image.  In training
  with targets, every output is the selected collection of the image followed by the
  boxes of its target, the appended boxes scored 1.0, and \<open>objectness\<close> is the only
  field: nothing else comes from the target.  In training without targets, and outside
  training whatever the targets, the output is \<open>selected\<close> itself.
\<close>

theorem ground_truth_appended:
  assumes sel: "(if 1 < num_levels then select_over_all_levels self boxlists else Inr boxlists)
      = Inr selected"
    and ne: "selected \<noteq> []"
    and fs: "\<forall>p \<in> set selected. fields_of p = [''objectness'']"
    and lt: "length targets = length selected"
  shows "(training self \<longrightarrow>
      (\<exists>out. aggregate self num_levels boxlists (Some targets) = Inr out
         \<and> length out = length selected
         \<and> (\<forall>i < length selected.
               bbox (out ! i) = bbox (selected ! i) @ bbox (targets ! i)
             \<and> extra_fields (out ! i) =
                 [(''objectness'',
                   objectness_of (selected ! i) @ replicate (len (targets ! i)) 1)]))
      \<and> aggregate self num_levels boxlists None = Inr selected)
    \<and> (\<not> training self \<longrightarrow> aggregate self num_levels boxlists tg = Inr selected)"
proof (intro conjI impI)
  assume tr: "training self"
  let ?out = "map (\<lambda>pt. with_gt (fst pt) (snd pt)) (zip selected targets)"
  have a: "aggregate self num_levels boxlists (Some targets) = Inr ?out"
    using sel tr add_gt_proposals_ok [OF ne fs, of targets]
    by (simp add: aggregate_def ebind_def)
  have l: "length ?out = length selected" using lt by simp
  have e: "\<forall>i < length selected.
               bbox (?out ! i) = bbox (selected ! i) @ bbox (targets ! i)
             \<and> extra_fields (?out ! i) =
                 [(''objectness'',
                   objectness_of (selected ! i) @ replicate (len (targets ! i)) 1)]"
    using lt by (simp add: with_gt_def)
  show "\<exists>out. aggregate self num_levels boxlists (Some targets) = Inr out
         \<and> length out = length selected
         \<and> (\<forall>i < length selected.
               bbox (out ! i) = bbox (selected ! i) @ bbox (targets ! i)
             \<and> extra_fields (out ! i) =
                 [(''objectness'',
                   objectness_of (selected ! i) @ replicate (len (targets ! i)) 1)])"
    by (intro exI [of _ ?out] conjI a l e)
  show "aggregate self num_levels boxlists None = Inr selected"
    using sel by (simp add: aggregate_def ebind_def)
next
  assume "\<not> training self"
  with sel show "aggregate self num_levels boxlists tg = Inr selected"
    by (simp add: aggregate_def ebind_def)
qed


theorem ground_truth_appended_witness:
  "training example_processor
   \<and> (\<exists>out. aggregate example_processor 2 example_boxlists (Some example_targets) = Inr out
        \<and> map bbox out = [[(2, 2, 4, 4), (1, 1, 2, 2)], [(1, 1, 3, 3), (0, 0, 5, 5), (2, 2, 3, 3)]]
        \<and> extra_fields (out ! 1) = [(''objectness'', [7/10, 1, 1])])
   \<and> aggregate example_processor 2 example_boxlists None = Inr example_selected"
proof -
  have tr: "training example_processor" by (simp add: example_processor_def)
  have sel: "(if 1 < (2::nat) then select_over_all_levels example_processor example_boxlists
              else Inr example_boxlists) = Inr example_selected"
    by (simp add: example_select_batch)
  have ne: "example_selected \<noteq> []" by (simp add: example_selected_def)
  have fs: "\<forall>p \<in> set example_selected. fields_of p = [''objectness'']"
    by (simp add: example_selected_def fields_of_def)
  have lt: "length example_targets = length example_selected"
    by (simp add: example_targets_def example_selected_def)
  note gta = ground_truth_appended [OF sel ne fs lt, of None]
  from gta tr obtain out where
    a: "aggregate example_processor 2 example_boxlists (Some example_targets) = Inr out" and
    b: "\<forall>i < length example_selected.
          bbox (out ! i) = bbox (example_selected ! i) @ bbox (example_targets ! i)
        \<and> extra_fields (out ! i) =
            [(''objectness'',
              objectness_of (example_selected ! i) @ replicate (len (example_targets ! i)) 1)]"
    by blast
  from gta tr have n: "aggregate example_processor 2 example_boxlists None = Inr example_selected"
    by blast
  from a have c: "map bbox out
      = [[(2, 2, 4, 4), (1, 1, 2, 2)], [(1, 1, 3, 3), (0, 0, 5, 5), (2, 2, 3, 3)]]"
    unfolding example_aggregate by auto
  have "1 < length example_selected" by (simp add: example_selected_def)
  with b have "extra_fields (out ! 1) =
            [(''objectness'',
              objectness_of (example_selected ! 1) @ replicate (len (example_targets ! 1)) 1)]"
    by blast
  then have d: "extra_fields (out ! 1) = [(''objectness'', [7/10, 1, 1])]"
    by (simp add: example_selected_def example_targets_def objectness_of_def get_field_def
        len_def eval_nat_numeral)
  show ?thesis
    by (intro conjI exI [of _ out] tr a c d n)
qed

section \<open>Clipping and the size filter\<close>

lemma clip_box_inside:
  "0 \<le> fst sz \<Longrightarrow> 0 \<le> snd sz \<Longrightarrow> inside sz (clip_box sz b)"
  by (cases sz; cases b) (auto simp: inside_def clip_box_def)

lemma clip_box_outside:
  "0 \<le> fst sz \<Longrightarrow> 0 \<le> snd sz \<Longrightarrow> outside sz b \<Longrightarrow> box_area (clip_box sz b) = 0"
  by (cases sz; cases b)
    (auto simp: outside_def clip_box_def box_area_def box_width_def box_height_def min_def max_def)

lemma mask_of_predicate:
  "map fst (filter (\<lambda>p. snd p \<noteq> 0) (zip xs (map (\<lambda>x. if P x then 1 else (0::8 word)) xs)))
     = filter P xs"
  by (induction xs) simp_all

lemma mask_of_predicate_field:
  "length d = length bs \<Longrightarrow>
   map fst (filter (\<lambda>p. snd p \<noteq> 0) (zip d (map (\<lambda>x. if P x then 1 else (0::8 word)) bs)))
     = map snd (filter (\<lambda>p. P (fst p)) (zip bs d))"
  by (induction d bs rule: list_induct2) simp_all

lemma example_clip_then_remove:
  "per_image_boxlist example_processor example_proposal [9/10, 8/10, 5/10, 4/10] (10, 10)
   = Inr \<lparr>bbox = [(0, 0, 3, 3), (8, 8, 10, 10)], image_size = (10, 10), mode = ''xyxy'',
          extra_fields = [(''objectness'', [5/10, 4/10])]\<rparr>"
  by (simp add: per_image_boxlist_def clipped_boxlist_def example_processor_def
      example_proposal_def new_BoxList_def add_field_def clip_to_image_def remove_small_boxes_def getitem_mask_def take_mask_def
      clip_box_def large_enough_def box_width_def box_height_def ebind_def)

text \<open>
  C4: for the proposals and the filtered scores of an image, of equal length, the
  collection built in lines 151 to 153 holds every proposal clipped, none discarded,
  with the scores as its \<open>objectness\<close> field; for an image of non-negative size every
  clipped box lies in the image and a box fully outside has become a box of area zero.
  The size filter of line 154 then runs on the clipped boxes: the result holds exactly
  the clipped boxes whose width and height are at least \<open>min_size\<close>, with their
  scores, in order; a clipped box that is narrower or lower is not in the result,
  whatever its score.
\<close>

theorem clip_then_remove_small:
  assumes len: "length score = length proposal"
  shows "bbox (clipped_boxlist proposal score im_shape) = map (clip_box im_shape) proposal
     \<and> len (clipped_boxlist proposal score im_shape) = length proposal
     \<and> get_field (clipped_boxlist proposal score im_shape) ''objectness'' = Inr score
     \<and> (0 \<le> fst im_shape \<and> 0 \<le> snd im_shape \<longrightarrow>
          (\<forall>b \<in> set (bbox (clipped_boxlist proposal score im_shape)). inside im_shape b)
          \<and> (\<forall>b \<in> set proposal. outside im_shape b \<longrightarrow> box_area (clip_box im_shape b) = 0))
     \<and> (\<exists>out. per_image_boxlist self proposal score im_shape = Inr out
          \<and> bbox out = filter (large_enough (min_size self)) (map (clip_box im_shape) proposal)
          \<and> get_field out ''objectness''
               = Inr (map snd (filter (\<lambda>p. large_enough (min_size self) (fst p))
                                 (zip (map (clip_box im_shape) proposal) score)))
          \<and> (\<forall>b \<in> set (bbox out).
                real_of_int (min_size self) \<le> box_width b
                \<and> real_of_int (min_size self) \<le> box_height b)
          \<and> (\<forall>b \<in> set (map (clip_box im_shape) proposal).
                box_width b < real_of_int (min_size self)
                \<or> box_height b < real_of_int (min_size self) \<longrightarrow> b \<notin> set (bbox out)))"
proof -
  let ?clipped = "clipped_boxlist proposal score im_shape"
  let ?ms = "min_size self"
  let ?mask = "map (\<lambda>b. if large_enough ?ms b then 1 else (0::8 word)) (bbox ?clipped)"
  let ?out = "masked ?clipped ?mask"
  have ef: "extra_fields ?clipped = [(''objectness'', score)]"
    by (simp add: clipped_boxlist_def clip_to_image_def add_field_def new_BoxList_def)
  have bb: "bbox ?clipped = map (clip_box im_shape) proposal"
    by (simp add: clipped_boxlist_def clip_to_image_def add_field_def new_BoxList_def)
  have al: "aligned ?clipped"
    using len by (simp add: aligned_def ef bb len_def)
  have lm: "length ?mask = len ?clipped" by (simp add: len_def)
  have ok: "per_image_boxlist self proposal score im_shape = Inr ?out"
    unfolding per_image_boxlist_def remove_small_boxes_def using al lm by (rule getitem_mask_ok)
  have "bbox ?out = filter (large_enough ?ms) (bbox ?clipped)"
    by (simp add: masked_def mask_of_predicate)
  then have ob: "bbox ?out = filter (large_enough ?ms) (map (clip_box im_shape) proposal)"
    by (simp only: bb)
  have "length score = length (bbox ?clipped)" using len bb by simp
  then have "get_field ?out ''objectness''
      = Inr (map snd (filter (\<lambda>p. large_enough ?ms (fst p)) (zip (bbox ?clipped) score)))"
    by (simp add: masked_def ef get_field_def mask_of_predicate_field)
  then have of: "get_field ?out ''objectness''
      = Inr (map snd (filter (\<lambda>p. large_enough ?ms (fst p))
                        (zip (map (clip_box im_shape) proposal) score)))"
    by (simp only: bb)
  have c1: "len ?clipped = length proposal" "get_field ?clipped ''objectness'' = Inr score"
    by (simp_all add: len_def bb get_field_def ef)
  have ins: "0 \<le> fst im_shape \<and> 0 \<le> snd im_shape \<longrightarrow>
          (\<forall>b \<in> set (bbox ?clipped). inside im_shape b)
          \<and> (\<forall>b \<in> set proposal. outside im_shape b \<longrightarrow> box_area (clip_box im_shape b) = 0)"
    by (auto simp: bb clip_box_inside clip_box_outside)
  have big: "\<forall>b \<in> set (bbox ?out).
           real_of_int ?ms \<le> box_width b \<and> real_of_int ?ms \<le> box_height b"
    unfolding ob by (simp add: large_enough_def)
  have small: "\<forall>b \<in> set (map (clip_box im_shape) proposal).
           box_width b < real_of_int ?ms \<or> box_height b < real_of_int ?ms
             \<longrightarrow> b \<notin> set (bbox ?out)"
    unfolding ob by (auto simp: large_enough_def)
  show ?thesis
    by (intro exI [of _ ?out] conjI bb c1 ins ok ob of big small)
qed

theorem clip_then_remove_small_witness:
  "length [9/10, 8/10, 5/10, 4/10 :: real] = length example_proposal
   \<and> (\<exists>out. per_image_boxlist example_processor example_proposal [9/10, 8/10, 5/10, 4/10] (10, 10)
          = Inr out
        \<and> bbox out = [(0, 0, 3, 3), (8, 8, 10, 10)]
        \<and> get_field out ''objectness'' = Inr [5/10, 4/10])
   \<and> box_area (clip_box (10, 10) (-5, -5, -1, -1)) = 0"
proof -
  have len: "length [9/10, 8/10, 5/10, 4/10 :: real] = length example_proposal"
    by (simp add: example_proposal_def)
  note t = clip_then_remove_small [OF len, of "(10, 10)" example_processor]
  from t obtain out where
    a: "per_image_boxlist example_processor example_proposal [9/10, 8/10, 5/10, 4/10] (10, 10)
          = Inr out" and
    b: "bbox out = filter (large_enough (min_size example_processor))
          (map (clip_box (10, 10)) example_proposal)"
    by blast
  from t have z: "\<forall>b \<in> set example_proposal.
      outside (10, 10) b \<longrightarrow> box_area (clip_box (10, 10) b) = 0"
    by simp
  from b have c: "bbox out = [(0, 0, 3, 3), (8, 8, 10, 10)]"
    by (simp add: example_processor_def example_proposal_def clip_box_def large_enough_def
        box_width_def box_height_def)
  from a have d: "get_field out ''objectness'' = Inr [5/10, 4/10]"
    unfolding example_clip_then_remove by (auto simp: get_field_def)
  have "(-5, -5, -1, -1) \<in> set example_proposal" "outside (10, 10) (-5, -5, -1, -1)"
    by (simp_all add: example_proposal_def outside_def)
  with z have e: "box_area (clip_box (10, 10) (-5, -5, -1, -1)) = 0" by blast
  show ?thesis
    by (intro conjI exI [of _ out] len a c d e)
qed

section \<open>The dump of the index rows\<close>

lemma bind_args_kw4: "bind_args save_params 2 0 kw4 = Inr ()"
  by (simp add: bind_args_def save_params_def kw4_def numeral_2_eq_2)

lemma fst_bind_io:
  "fst (bind_io m f w) = (case fst (m w) of Inl e \<Rightarrow> Inl e | Inr v \<Rightarrow> fst (f v (snd (m w))))"
  by (cases "m w") (auto simp: bind_io_def split: sum.splits)

lemma snd_bind_io:
  "snd (bind_io m f w) = (case fst (m w) of Inl e \<Rightarrow> snd (m w) | Inr v \<Rightarrow> snd (f v (snd (m w))))"
  by (cases "m w") (auto simp: bind_io_def split: sum.splits)

lemma fst_saver_save:
  "tensor_saver w \<noteq> None \<Longrightarrow>
   fst (saver_save a 0 kw4 name scope w) = (case a of Inl e \<Rightarrow> Inl e | Inr _ \<Rightarrow> Inr ())"
  by (auto simp: saver_save_def bind_io_def get_tensor_saver_def lift_io_def bind_args_kw4
      save_def split: sum.splits)

lemma saver_save_keeps_saver:
  "tensor_saver (snd (saver_save a npos kws name scope w)) = tensor_saver w"
  by (auto simp: saver_save_def bind_io_def get_tensor_saver_def lift_io_def save_def
      split: sum.splits option.splits)

lemma dump_topk_idx_cases:
  assumes sv: "tensor_saver w \<noteq> None"
  shows "fst (dump_topk_idx level topk_idx w)
     = (if 2 \<le> length topk_idx then Inr () else Inl IndexError)"
proof -
  let ?a0 = "ebind (row topk_idx 0) (\<lambda>r. Inr [length r])"
  let ?a1 = "ebind (row topk_idx 1) (\<lambda>r. Inr [length r])"
  have a0: "?a0 = (if 0 < length topk_idx then Inr [length (topk_idx ! 0)] else Inl IndexError)"
    by (simp add: row_def ebind_def)
  have a1: "?a1 = (if 1 < length topk_idx then Inr [length (topk_idx ! 1)] else Inl IndexError)"
    by (simp add: row_def ebind_def)
  have "fst (dump_topk_idx level topk_idx w)
      = (case ?a0 of Inl e \<Rightarrow> Inl e | Inr _ \<Rightarrow> (case ?a1 of Inl e \<Rightarrow> Inl e | Inr _ \<Rightarrow> Inr ()))"
    unfolding dump_topk_idx_def fst_bind_io
    by (auto simp: fst_saver_save saver_save_keeps_saver sv split: sum.splits)
  also have "\<dots> = (if 2 \<le> length topk_idx then Inr () else Inl IndexError)"
    unfolding a0 a1 by auto
  finally show ?thesis .
qed


lemma forward_single_image_fails:
  assumes sv: "tensor_saver w \<noteq> None"
    and wf: "\<forall>r \<in> set (logits t). length r = dim_A t * dim_H t * dim_W t"
    and n: "length (logits t) < 2"
  shows "fst (forward_for_single_feature_map self ext anchors t reg level w) = Inl IndexError"
proof -
  from prefilter_ok [OF wf, of self "sigmoid ext"]
  obtain scores idx where p: "prefilter self (sigmoid ext) t = Inr (scores, idx)"
    and l: "length idx = length (logits t)" by simp
  from n l have "fst (dump_topk_idx level idx w) = Inl IndexError"
    by (simp add: dump_topk_idx_cases [OF sv])
  then show ?thesis
    unfolding forward_for_single_feature_map_def Let_def
    by (simp add: fst_bind_io lift_io_def p)
qed

lemma dump_topk_idx_no_saver:
  "tensor_saver w = None \<Longrightarrow> fst (dump_topk_idx level idx w) = Inl SaverNotCreated"
  by (simp add: dump_topk_idx_def fst_bind_io saver_save_def get_tensor_saver_def bind_io_def)

lemma forward_no_saver:
  assumes "tensor_saver w = None"
    and "\<forall>r \<in> set (logits t). length r = dim_A t * dim_H t * dim_W t"
  shows "fst (forward_for_single_feature_map self ext anchors t reg level w)
     = Inl SaverNotCreated"
proof -
  from prefilter_ok [OF assms(2), of self "sigmoid ext"]
  obtain scores idx where p: "prefilter self (sigmoid ext) t = Inr (scores, idx)" by simp
  show ?thesis
    unfolding forward_for_single_feature_map_def Let_def
    by (simp add: fst_bind_io lift_io_def p dump_topk_idx_no_saver [OF assms(1)])
qed

text \<open>
  C8: with a tensor saver created, the dump of rows 0 and 1 of the index tensor
  (lines 98 to 109) succeeds exactly when the batch has at least two images and is an
  \<open>IndexError\<close> otherwise; so \<open>forward_for_single_feature_map\<close> on a well-shaped
  score tensor of fewer than two images ends in that \<open>IndexError\<close>, before anything is
  gathered, decoded or processed per image.  Whatever the state, the call on such a
  batch does not return: without a saver \<open>get_tensor_saver\<close> raises first.
\<close>

theorem single_image_batch_fails:
  assumes sv: "tensor_saver w \<noteq> None"
  shows "(fst (dump_topk_idx level topk_idx w) = Inr () \<longleftrightarrow> 2 \<le> length topk_idx)
    \<and> (length topk_idx < 2 \<longrightarrow> fst (dump_topk_idx level topk_idx w) = Inl IndexError)
    \<and> ((\<forall>r \<in> set (logits t). length r = dim_A t * dim_H t * dim_W t)
         \<and> length (logits t) < 2 \<longrightarrow>
        fst (forward_for_single_feature_map self ext anchors t reg level w) = Inl IndexError
        \<and> (\<forall>w'. fst (forward_for_single_feature_map self ext anchors t reg level w')
               \<in> {Inl IndexError, Inl SaverNotCreated}))"
proof (intro conjI impI allI)
  show "fst (dump_topk_idx level topk_idx w) = Inr () \<longleftrightarrow> 2 \<le> length topk_idx"
    by (simp add: dump_topk_idx_cases [OF sv])
  show "fst (dump_topk_idx level topk_idx w) = Inl IndexError" if "length topk_idx < 2"
    using that by (simp add: dump_topk_idx_cases [OF sv])
  show "fst (forward_for_single_feature_map self ext anchors t reg level w) = Inl IndexError"
    if "(\<forall>r \<in> set (logits t). length r = dim_A t * dim_H t * dim_W t) \<and> length (logits t) < 2"
    using that forward_single_image_fails [OF sv] by blast
  show "fst (forward_for_single_feature_map self ext anchors t reg level w')
      \<in> {Inl IndexError, Inl SaverNotCreated}"
    if h: "(\<forall>r \<in> set (logits t). length r = dim_A t * dim_H t * dim_W t) \<and> length (logits t) < 2"
    for w'
  proof (cases "tensor_saver w' = None")
    case True
    with h show ?thesis by (simp add: forward_no_saver)
  next
    case False
    with h show ?thesis by (simp add: forward_single_image_fails)
  qed
qed

theorem single_image_batch_fails_witness:
  "tensor_saver example_world \<noteq> None
   \<and> fst (dump_topk_idx 1 [[0, 2]] example_world) = Inl IndexError
   \<and> fst (dump_topk_idx 1 [[0, 2], [2, 0]] example_world) = Inr ()
   \<and> fst (forward_for_single_feature_map example_processor example_ops [] example_single [] 1
            example_world) = Inl IndexError"
proof -
  have sv: "tensor_saver example_world \<noteq> None" by (simp add: example_world_def)
  have wf: "(\<forall>r \<in> set (logits example_single).
      length r = dim_A example_single * dim_H example_single * dim_W example_single)
      \<and> length (logits example_single) < 2"
    by (simp add: example_single_def)
  have a: "fst (dump_topk_idx 1 [[0, 2]] example_world) = Inl IndexError"
    using single_image_batch_fails [OF sv, of 1 "[[0, 2]]"] by simp
  have b: "fst (dump_topk_idx 1 [[0, 2], [2, 0]] example_world) = Inr ()"
    using single_image_batch_fails [OF sv, of 1 "[[0, 2], [2, 0]]"] by simp
  have c: "fst (forward_for_single_feature_map example_processor example_ops [] example_single
            [] 1 example_world) = Inl IndexError"
    using single_image_batch_fails [OF sv, of _ _ example_single] wf by blast
  show ?thesis by (intro conjI sv a b c)
qed

section \<open>Gathering for the codec\<close>

lemma index_rows_ok:
  assumes l: "length idx = N" and t: "N \<le> length t"
    and r: "\<forall>i < N. set (idx ! i) \<subseteq> {0..<length (t ! i)}"
  shows "index_rows t [0..<N] idx = Inr (map (\<lambda>i. map (\<lambda>j. t ! i ! j) (idx ! i)) [0..<N])"
proof -
  have z: "zip [0..<N] idx = map (\<lambda>i. (i, idx ! i)) [0..<N]"
    using l by (intro nth_equalityI) simp_all
  have "emap (\<lambda>(b, js). ebind (row t b) (\<lambda>r. take_idx r js)) (map (\<lambda>i. (i, idx ! i)) [0..<N])
      = Inr (map (\<lambda>p. map (\<lambda>j. t ! fst p ! j) (snd p)) (map (\<lambda>i. (i, idx ! i)) [0..<N]))"
  proof (rule emap_all_Inr)
    fix p assume "p \<in> set (map (\<lambda>i. (i, idx ! i)) [0..<N])"
    then obtain i where i: "i < N" and p: "p = (i, idx ! i)" by auto
    from i t have "row t i = Inr (t ! i)" by (simp add: row_def)
    moreover from i r have "take_idx (t ! i) (idx ! i) = Inr (map (\<lambda>j. t ! i ! j) (idx ! i))"
      by (simp add: take_idx_ok)
    ultimately show "(case p of (b, js) \<Rightarrow> ebind (row t b) (\<lambda>r. take_idx r js))
        = Inr (map (\<lambda>j. t ! fst p ! j) (snd p))"
      by (simp add: p ebind_def)
  qed
  then show ?thesis using l by (simp add: index_rows_def z comp_def)
qed

lemma take_drop_concat:
  "i < length xss \<Longrightarrow> \<forall>xs \<in> set xss. length xs = m \<Longrightarrow>
   take m (drop (i * m) (concat xss)) = xss ! i"
proof (induction xss arbitrary: i)
  case Nil
  then show ?case by simp
next
  case (Cons xs xss)
  show ?case
  proof (cases i)
    case 0
    with Cons.prems show ?thesis by simp
  next
    case (Suc i')
    with Cons.prems have "i' < length xss" "\<forall>xs \<in> set xss. length xs = m" by simp_all
    from Cons.IH [OF this] Suc Cons.prems show ?thesis by simp
  qed
qed

lemma length_concat_rows:
  "\<forall>xs \<in> set xss. length xs = m \<Longrightarrow> length (concat xss) = length xss * m"
  by (induction xss) simp_all

lemma view_rows_concat:
  assumes "0 < length xss" "\<forall>xs \<in> set xss. length xs = m"
  shows "view_rows (length xss) (concat xss) = Inr xss"
proof -
  let ?N = "length xss"
  have len: "length (concat xss) = ?N * m" using assms(2) by (rule length_concat_rows)
  have d: "length (concat xss) div ?N = m" "length (concat xss) mod ?N = 0"
    using assms(1) by (simp_all add: len)
  have "map (\<lambda>i. take m (drop (i * m) (concat xss))) [0..<?N] = xss"
    using assms(2) by (intro nth_equalityI) (simp_all add: take_drop_concat)
  with assms(1) d show ?thesis by (simp add: view_rows_def)
qed

lemma decode_append:
  "length ds = length bs \<Longrightarrow>
   decode dec (ds @ ds') (bs @ bs') = decode dec ds bs @ decode dec ds' bs'"
  by (simp add: decode_def)

lemma decode_concat:
  "list_all2 (\<lambda>ds bs. length ds = length bs) dss bss \<Longrightarrow>
   decode dec (concat dss) (concat bss)
     = concat (map (\<lambda>p. decode dec (fst p) (snd p)) (zip dss bss))"
proof (induction rule: list_all2_induct)
  case Nil
  show ?case by (simp add: decode_def)
next
  case (Cons ds dss bs bss)
  then show ?case by (simp add: decode_append)
qed

lemma decode_same_indices:
  "decode dec (map f idx) (map g idx) = map (\<lambda>j. dec (f j) (g j)) idx"
  by (induction idx) (simp_all add: decode_def)


lemma gather_for_decode_ok:
  assumes l: "length idx = N" and ne: "0 < N"
    and sub: "\<forall>i < N. set (idx ! i) \<subseteq> {0..<n}"
    and reg: "length box_regression = N" "\<forall>r \<in> set box_regression. length r = n"
    and anc: "length anchors = N" "\<forall>a \<in> set anchors. len a = n"
  shows "gather_for_decode N anchors box_regression idx
     = Inr (map (\<lambda>i. map (\<lambda>j. box_regression ! i ! j) (idx ! i)) [0..<N],
            map (\<lambda>i. map (\<lambda>j. bbox (anchors ! i) ! j) (idx ! i)) [0..<N])"
proof -
  have r: "index_rows box_regression [0..<N] idx
      = Inr (map (\<lambda>i. map (\<lambda>j. box_regression ! i ! j) (idx ! i)) [0..<N])"
    using l reg sub by (intro index_rows_ok) simp_all
  have c: "tensor_cat (map bbox anchors) = Inr (concat (map bbox anchors))"
    using anc(1) ne by (auto simp: tensor_cat_def)
  have v: "view_rows N (concat (map bbox anchors)) = Inr (map bbox anchors)"
    using view_rows_concat [of "map bbox anchors" n] anc ne by (simp add: len_def)
  have a: "index_rows (map bbox anchors) [0..<N] idx
      = Inr (map (\<lambda>i. map (\<lambda>j. map bbox anchors ! i ! j) (idx ! i)) [0..<N])"
    using l anc sub by (intro index_rows_ok) (simp_all add: len_def)
  have "map (\<lambda>i. map (\<lambda>j. map bbox anchors ! i ! j) (idx ! i)) [0..<N]
      = map (\<lambda>i. map (\<lambda>j. bbox (anchors ! i) ! j) (idx ! i)) [0..<N]"
    using anc(1) by simp
  with r c v a show ?thesis
    by (simp add: gather_for_decode_def Let_def ebind_def)
qed

lemma example_prefilter_all:
  "prefilter scenario_processor (sigmoid example_ops) example_objectness
     = Inr ([[9/10, 8/10, 3/10, 1/10], [7/10, 5/10, 5/10, 5/10]], [[0, 2, 3, 1], [2, 0, 1, 3]])"
  by (simp add: prefilter_def scenario_processor_def example_objectness_def example_ops_def
      topk_rows_def topk_def argsort_desc_def ebind_def)

lemma example_gather_all:
  "gather_for_decode 2 example_anchors example_regression [[0, 2, 3, 1], [2, 0, 1, 3]]
     = Inr ([[(0, 0, 0, 0), (2, 0, 0, 0), (3, 0, 0, 0), (1, 0, 0, 0)],
             [(2, 1, 0, 0), (0, 1, 0, 0), (1, 1, 0, 0), (3, 1, 0, 0)]],
            [[(0, 0, 1, 1), (0, 0, 3, 3), (0, 0, 4, 4), (0, 0, 2, 2)],
             [(0, 0, 3, 3), (0, 0, 1, 1), (0, 0, 2, 2), (0, 0, 4, 4)]])"
  by (simp add: gather_for_decode_def example_anchors_def example_regression_def
      index_rows_def row_def take_idx_def tensor_cat_def view_rows_def ebind_def
      upt_conv_Cons)

lemma example_gather:
  "gather_for_decode 2 example_anchors example_regression [[0, 2], [2, 0]]
     = Inr ([[(0, 0, 0, 0), (2, 0, 0, 0)], [(2, 1, 0, 0), (0, 1, 0, 0)]],
            [[(0, 0, 1, 1), (0, 0, 3, 3)], [(0, 0, 3, 3), (0, 0, 1, 1)]])"
  by (simp add: gather_for_decode_def example_anchors_def example_regression_def
      index_rows_def row_def take_idx_def tensor_cat_def view_rows_def ebind_def
      upt_conv_Cons)

lemma gather_and_decode:
  assumes rows: "\<forall>r \<in> set (logits t). length r = dim_A t * dim_H t * dim_W t"
    and reg: "length box_regression = length (logits t)"
      "\<forall>r \<in> set box_regression. length r = dim_A t * dim_H t * dim_W t"
    and anc: "length anchors = length (logits t)"
      "\<forall>a \<in> set anchors. len a = dim_A t * dim_H t * dim_W t"
    and ne: "0 < length (logits t)"
  shows "\<exists>scores topk_idx ds as.
       prefilter self sig t = Inr (scores, topk_idx)
     \<and> gather_for_decode (length (logits t)) anchors box_regression topk_idx = Inr (ds, as)
     \<and> length ds = length (logits t) \<and> length as = length (logits t)
     \<and> (\<forall>i < length (logits t).
          scores ! i = map (\<lambda>j. sig (logits t ! i ! j)) (topk_idx ! i)
        \<and> ds ! i = map (\<lambda>j. box_regression ! i ! j) (topk_idx ! i)
        \<and> as ! i = map (\<lambda>j. bbox (anchors ! i) ! j) (topk_idx ! i)
        \<and> length (as ! i) = min (pre_nms_top_n self) (dim_A t * dim_H t * dim_W t)
        \<and> (dim_A t * dim_H t * dim_W t \<le> pre_nms_top_n self \<longrightarrow>
             mset (as ! i) = mset (bbox (anchors ! i))))
     \<and> length (concat ds)
          = length (logits t) * min (pre_nms_top_n self) (dim_A t * dim_H t * dim_W t)
     \<and> length (concat as)
          = length (logits t) * min (pre_nms_top_n self) (dim_A t * dim_H t * dim_W t)
     \<and> view_rows (length (logits t)) (decode dec (concat ds) (concat as))
          = Inr (map (\<lambda>i. map (\<lambda>j. dec (box_regression ! i ! j) (bbox (anchors ! i) ! j))
                              (topk_idx ! i)) [0..<length (logits t)])"
proof -
  let ?N = "length (logits t)"
  let ?n = "dim_A t * dim_H t * dim_W t"
  let ?k = "min (pre_nms_top_n self) ?n"
  from prefilter_rows [OF rows, of self sig]
  obtain scores idx where p: "prefilter self sig t = Inr (scores, idx)"
    and li: "length idx = ?N"
    and tk: "\<forall>i < ?N. is_topk (map sig (logits t ! i)) ?k (idx ! i)
          \<and> scores ! i = map (\<lambda>j. sig (logits t ! i ! j)) (idx ! i)
          \<and> (?n \<le> pre_nms_top_n self \<longrightarrow> mset (idx ! i) = mset [0..<?n])"
    by blast
  let ?ds = "map (\<lambda>i. map (\<lambda>j. box_regression ! i ! j) (idx ! i)) [0..<?N]"
  let ?as = "map (\<lambda>i. map (\<lambda>j. bbox (anchors ! i) ! j) (idx ! i)) [0..<?N]"
  have lk: "length (idx ! i) = ?k" if "i < ?N" for i
    using tk that by (simp add: is_topk_def)
  have sub: "\<forall>i < ?N. set (idx ! i) \<subseteq> {0..<?n}"
  proof (intro allI impI)
    fix i assume i: "i < ?N"
    with rows have "length (logits t ! i) = ?n" by simp
    moreover from tk i have "set (idx ! i) \<subseteq> {0..<length (map sig (logits t ! i))}"
      unfolding is_topk_def by blast
    ultimately show "set (idx ! i) \<subseteq> {0..<?n}" by simp
  qed
  have g: "gather_for_decode ?N anchors box_regression idx = Inr (?ds, ?as)"
    using li ne sub reg anc by (rule gather_for_decode_ok)
  have rowsf: "\<forall>i < ?N.
          scores ! i = map (\<lambda>j. sig (logits t ! i ! j)) (idx ! i)
        \<and> ?ds ! i = map (\<lambda>j. box_regression ! i ! j) (idx ! i)
        \<and> ?as ! i = map (\<lambda>j. bbox (anchors ! i) ! j) (idx ! i)
        \<and> length (?as ! i) = ?k
        \<and> (?n \<le> pre_nms_top_n self \<longrightarrow> mset (?as ! i) = mset (bbox (anchors ! i)))"
  proof (intro allI impI)
    fix i assume i: "i < ?N"
    have all: "mset (map (\<lambda>j. bbox (anchors ! i) ! j) (idx ! i)) = mset (bbox (anchors ! i))"
      if "?n \<le> pre_nms_top_n self"
    proof -
      from tk i that have "mset (idx ! i) = mset [0..<?n]" by blast
      then have "mset (map (\<lambda>j. bbox (anchors ! i) ! j) (idx ! i))
          = mset (map (\<lambda>j. bbox (anchors ! i) ! j) [0..<?n])"
        by (simp only: mset_map)
      also have "?n = length (bbox (anchors ! i))"
        using anc i by (simp add: len_def)
      also have "map (\<lambda>j. bbox (anchors ! i) ! j) [0..<length (bbox (anchors ! i))]
          = bbox (anchors ! i)"
        by (rule map_nth)
      finally show ?thesis .
    qed
    show "scores ! i = map (\<lambda>j. sig (logits t ! i ! j)) (idx ! i)
        \<and> ?ds ! i = map (\<lambda>j. box_regression ! i ! j) (idx ! i)
        \<and> ?as ! i = map (\<lambda>j. bbox (anchors ! i) ! j) (idx ! i)
        \<and> length (?as ! i) = ?k
        \<and> (?n \<le> pre_nms_top_n self \<longrightarrow> mset (?as ! i) = mset (bbox (anchors ! i)))"
      using i tk lk [OF i] all by simp
  qed
  have lds: "\<forall>xs \<in> set ?ds. length xs = ?k" and las: "\<forall>xs \<in> set ?as. length xs = ?k"
    using lk by auto
  have cd: "length (concat ?ds) = ?N * ?k"
    using length_concat_rows [OF lds] by simp
  have ca: "length (concat ?as) = ?N * ?k"
    using length_concat_rows [OF las] by simp
  have "list_all2 (\<lambda>ds bs. length ds = length bs) ?ds ?as"
    by (simp add: list_all2_conv_all_nth)
  then have "decode dec (concat ?ds) (concat ?as)
      = concat (map (\<lambda>p. decode dec (fst p) (snd p)) (zip ?ds ?as))"
    by (rule decode_concat)
  also have "map (\<lambda>p. decode dec (fst p) (snd p)) (zip ?ds ?as)
      = map (\<lambda>i. map (\<lambda>j. dec (box_regression ! i ! j) (bbox (anchors ! i) ! j)) (idx ! i)) [0..<?N]"
    by (intro nth_equalityI) (simp_all add: decode_same_indices)
  finally have dc: "decode dec (concat ?ds) (concat ?as)
      = concat (map (\<lambda>i. map (\<lambda>j. dec (box_regression ! i ! j) (bbox (anchors ! i) ! j)) (idx ! i))
                  [0..<?N])" .
  have v: "view_rows ?N (decode dec (concat ?ds) (concat ?as))
      = Inr (map (\<lambda>i. map (\<lambda>j. dec (box_regression ! i ! j) (bbox (anchors ! i) ! j)) (idx ! i))
               [0..<?N])"
    unfolding dc
    using view_rows_concat [of "map (\<lambda>i. map (\<lambda>j. dec (box_regression ! i ! j)
        (bbox (anchors ! i) ! j)) (idx ! i)) [0..<?N]" ?k] ne lk
    by simp
  have lens: "length ?ds = ?N" "length ?as = ?N" by simp_all
  show ?thesis
    by (intro exI [of _ scores] exI [of _ idx] exI [of _ ?ds] exI [of _ ?as] conjI
        p g lens rowsf cd ca v)
qed

text \<open>
  C3, as the code has it: on well-shaped inputs of a nonempty batch the deltas and the
  anchors handed to the codec are gathered, image by image, with the index row that
  selected that image's scores; per image there are \<open>min(pre_nms_top_n, A * H * W)\<close>
  of them, so at most \<open>pre_nms_top_n\<close>, and all \<open>A * H * W\<close> anchors of the image
  (reordered) exactly when \<open>pre_nms_top_n\<close> is at least \<open>A * H * W\<close>.  The decoded
  boxes, viewed per image, are the codec applied to the delta and the anchor at the same
  retained index.
\<close>

theorem decode_gathers_retained:
  assumes rows: "\<forall>r \<in> set (logits t). length r = dim_A t * dim_H t * dim_W t"
    and reg: "length box_regression = length (logits t)"
      "\<forall>r \<in> set box_regression. length r = dim_A t * dim_H t * dim_W t"
    and anc: "length anchors = length (logits t)"
      "\<forall>a \<in> set anchors. len a = dim_A t * dim_H t * dim_W t"
    and ne: "0 < length (logits t)"
  shows "\<exists>scores topk_idx ds as.
       prefilter self sig t = Inr (scores, topk_idx)
     \<and> gather_for_decode (length (logits t)) anchors box_regression topk_idx = Inr (ds, as)
     \<and> length ds = length (logits t) \<and> length as = length (logits t)
     \<and> (\<forall>i < length (logits t).
          scores ! i = map (\<lambda>j. sig (logits t ! i ! j)) (topk_idx ! i)
        \<and> ds ! i = map (\<lambda>j. box_regression ! i ! j) (topk_idx ! i)
        \<and> as ! i = map (\<lambda>j. bbox (anchors ! i) ! j) (topk_idx ! i)
        \<and> length (as ! i) = min (pre_nms_top_n self) (dim_A t * dim_H t * dim_W t)
        \<and> (dim_A t * dim_H t * dim_W t \<le> pre_nms_top_n self \<longrightarrow>
             mset (as ! i) = mset (bbox (anchors ! i))))
     \<and> length (concat ds)
          = length (logits t) * min (pre_nms_top_n self) (dim_A t * dim_H t * dim_W t)
     \<and> length (concat as)
          = length (logits t) * min (pre_nms_top_n self) (dim_A t * dim_H t * dim_W t)
     \<and> view_rows (length (logits t)) (decode dec (concat ds) (concat as))
          = Inr (map (\<lambda>i. map (\<lambda>j. dec (box_regression ! i ! j) (bbox (anchors ! i) ! j))
                              (topk_idx ! i)) [0..<length (logits t)])"
  using assms by (rule gather_and_decode)

theorem decode_gathers_retained_witness:
  "list_all (\<lambda>r. length r
       = dim_A example_objectness * dim_H example_objectness * dim_W example_objectness)
     (logits example_objectness)
   \<and> length example_regression = length (logits example_objectness)
   \<and> list_all (\<lambda>r. length r
       = dim_A example_objectness * dim_H example_objectness * dim_W example_objectness)
     example_regression
   \<and> length example_anchors = length (logits example_objectness)
   \<and> list_all (\<lambda>a. len a
       = dim_A example_objectness * dim_H example_objectness * dim_W example_objectness)
     example_anchors
   \<and> 0 < length (logits example_objectness)
   \<and> (\<exists>ds as. gather_for_decode 2 example_anchors example_regression [[0, 2], [2, 0]]
          = Inr (ds, as)
        \<and> length (concat as) = 4
        \<and> as ! 1 = [(0, 0, 3, 3), (0, 0, 1, 1)])"
proof -
  let ?n = "dim_A example_objectness * dim_H example_objectness * dim_W example_objectness"
  have rows: "\<forall>r \<in> set (logits example_objectness). length r = ?n"
    by (simp add: example_objectness_def)
  have reg: "length example_regression = length (logits example_objectness)"
    "\<forall>r \<in> set example_regression. length r = ?n"
    by (simp_all add: example_objectness_def example_regression_def)
  have anc: "length example_anchors = length (logits example_objectness)"
    "\<forall>a \<in> set example_anchors. len a = ?n"
    by (simp_all add: example_objectness_def example_anchors_def len_def)
  have ne: "0 < length (logits example_objectness)"
    by (simp add: example_objectness_def)
  from decode_gathers_retained [OF rows reg anc ne, of example_processor "\<lambda>x. x"]
  obtain scores idx ds as where
    p: "prefilter example_processor (\<lambda>x. x) example_objectness = Inr (scores, idx)" and
    g: "gather_for_decode (length (logits example_objectness)) example_anchors
          example_regression idx = Inr (ds, as)" and
    ca: "length (concat as) = length (logits example_objectness)
          * min (pre_nms_top_n example_processor) ?n"
    by blast
  from p have idx: "idx = [[0, 2], [2, 0]]" by (simp add: example_prefilter)
  have two: "length (logits example_objectness) = 2"
    by (simp add: example_objectness_def)
  have g': "gather_for_decode 2 example_anchors example_regression [[0, 2], [2, 0]] = Inr (ds, as)"
    using g by (simp only: idx two)
  have ca': "length (concat as) = 4"
    using ca by (simp add: example_objectness_def example_processor_def)
  from g' have a1: "as ! 1 = [(0, 0, 3, 3), (0, 0, 1, 1)]"
    unfolding example_gather by auto
  have h1: "list_all (\<lambda>r. length r = ?n) (logits example_objectness)"
    using rows by (simp only: list_all_iff)
  have h2: "list_all (\<lambda>r. length r = ?n) example_regression"
    using reg(2) by (simp only: list_all_iff)
  have h3: "list_all (\<lambda>a. len a = ?n) example_anchors"
    using anc(2) by (simp only: list_all_iff)
  show ?thesis
    by (intro conjI exI [of _ ds] exI [of _ as] h1 h2 h3 reg(1) anc(1) ne g' ca' a1)
qed

text \<open>
  With \<open>pre_nms_top_n = 5\<close> and four anchors per image the pre-filter keeps every
  index, and the anchors handed to the codec for the first image are all four anchors
  of that image: four of them, not \<open>pre_nms_top_n\<close>.
\<close>

theorem decode_all_anchors_counterexample:
  "prefilter scenario_processor (sigmoid example_ops) example_objectness
     = Inr ([[9/10, 8/10, 3/10, 1/10], [7/10, 5/10, 5/10, 5/10]], [[0, 2, 3, 1], [2, 0, 1, 3]])
   \<and> gather_for_decode 2 example_anchors example_regression [[0, 2, 3, 1], [2, 0, 1, 3]]
     = Inr ([[(0, 0, 0, 0), (2, 0, 0, 0), (3, 0, 0, 0), (1, 0, 0, 0)],
             [(2, 1, 0, 0), (0, 1, 0, 0), (1, 1, 0, 0), (3, 1, 0, 0)]],
            [[(0, 0, 1, 1), (0, 0, 3, 3), (0, 0, 4, 4), (0, 0, 2, 2)],
             [(0, 0, 3, 3), (0, 0, 1, 1), (0, 0, 2, 2), (0, 0, 4, 4)]])
   \<and> length [(0, 0, 1, 1), (0, 0, 3, 3), (0, 0, 4, 4), (0, 0, 2, 2) :: box]
       = dim_A example_objectness * dim_H example_objectness * dim_W example_objectness
   \<and> length [(0, 0, 1, 1), (0, 0, 3, 3), (0, 0, 4, 4), (0, 0, 2, 2) :: box]
       \<noteq> pre_nms_top_n scenario_processor
   \<and> mset [(0, 0, 1, 1), (0, 0, 3, 3), (0, 0, 4, 4), (0, 0, 2, 2) :: box]
       = mset (bbox (example_anchors ! 0))"
proof -
  have "mset [(0, 0, 1, 1), (0, 0, 3, 3), (0, 0, 4, 4), (0, 0, 2, 2) :: box]
       = mset (bbox (example_anchors ! 0))"
    by (simp add: example_anchors_def)
  then show ?thesis
    using example_prefilter_all example_gather_all
    by (simp add: example_objectness_def scenario_processor_def)
qed

section \<open>The decoder as a whole\<close>

lemma dump_topk_idx_keeps_saver:
  "tensor_saver (snd (dump_topk_idx level idx w)) = tensor_saver w"
  by (simp add: dump_topk_idx_def snd_bind_io saver_save_keeps_saver split: sum.splits)

lemma decode_proposals_ok:
  assumes "tensor_saver w \<noteq> None"
  shows "fst (decode_proposals dec N ds as w) = view_rows N (decode dec (concat ds) (concat as))"
    and "tensor_saver (snd (decode_proposals dec N ds as w)) = tensor_saver w"
  using assms
  by (simp_all add: decode_proposals_def Let_def fst_bind_io snd_bind_io fst_saver_save
      saver_save_keeps_saver lift_io_def split: sum.splits)

lemma mapM_io_saves:
  assumes "\<And>x w. tensor_saver w \<noteq> None \<Longrightarrow> fst (f x w) = Inr (g x)"
    and "\<And>x w. tensor_saver (snd (f x w)) = tensor_saver w"
  shows "tensor_saver w \<noteq> None \<Longrightarrow> fst (mapM_io f xs w) = Inr (map g xs)"
    and "tensor_saver (snd (mapM_io f xs w)) = tensor_saver w"
proof -
  have "(tensor_saver w \<noteq> None \<longrightarrow> fst (mapM_io f xs w) = Inr (map g xs))
      \<and> tensor_saver (snd (mapM_io f xs w)) = tensor_saver w"
  proof (induction xs arbitrary: w)
    case Nil
    show ?case by (simp add: return_io_def)
  next
    case (Cons x xs)
    show ?case
      using Cons.IH [of "snd (f x w)"] assms
      by (auto simp: fst_bind_io snd_bind_io return_io_def split: sum.splits)
  qed
  then show "tensor_saver w \<noteq> None \<Longrightarrow> fst (mapM_io f xs w) = Inr (map g xs)"
    and "tensor_saver (snd (mapM_io f xs w)) = tensor_saver w" by simp_all
qed

lemma dump_after_decode_ok:
  "tensor_saver w \<noteq> None \<Longrightarrow> \<exists>us. fst (dump_after_decode level ps w) = Inr us"
  and dump_after_decode_keeps_saver:
  "tensor_saver (snd (dump_after_decode level ps w)) = tensor_saver w"
proof -
  let ?f = "\<lambda>(img_idx, p). saver_save (Inr [length p, 4]) 0 kw4
      (''proposals_after_decode_img_'' @ str_nat img_idx @ ''_layer_'' @ str_nat level)
      (Some ''rpn'')"
  have a: "\<And>x w. tensor_saver w \<noteq> None \<Longrightarrow> fst (?f x w) = Inr ()"
    by (auto simp: fst_saver_save split: prod.splits)
  have b: "\<And>x w. tensor_saver (snd (?f x w)) = tensor_saver w"
    by (auto simp: saver_save_keeps_saver split: prod.splits)
  show "tensor_saver w \<noteq> None \<Longrightarrow> \<exists>us. fst (dump_after_decode level ps w) = Inr us"
    unfolding dump_after_decode_def using mapM_io_saves(1) [of ?f "\<lambda>_. ()", OF a b] by blast
  show "tensor_saver (snd (dump_after_decode level ps w)) = tensor_saver w"
    unfolding dump_after_decode_def using mapM_io_saves(2) [of ?f "\<lambda>_. ()", OF a b] by blast
qed

lemma mapM_io_first_fails:
  "fst (f x w) = Inl e \<Longrightarrow> fst (mapM_io f (x # xs) w) = Inl e"
  by (simp add: fst_bind_io)


lemma per_image_boxlist_ok:
  assumes "length score = length proposal"
  shows "\<exists>bl. per_image_boxlist self proposal score im_shape = Inr bl"
proof -
  let ?clipped = "clipped_boxlist proposal score im_shape"
  have "extra_fields ?clipped = [(''objectness'', score)]"
    and "bbox ?clipped = map (clip_box im_shape) proposal"
    by (simp_all add: clipped_boxlist_def clip_to_image_def add_field_def new_BoxList_def)
  with assms have "aligned ?clipped" by (simp add: aligned_def len_def)
  then have "getitem_mask ?clipped
        (map (\<lambda>b. if large_enough (min_size self) b then 1 else 0) (bbox ?clipped))
      = Inr (masked ?clipped
          (map (\<lambda>b. if large_enough (min_size self) b then 1 else 0) (bbox ?clipped)))"
    by (rule getitem_mask_ok) (simp add: len_def)
  then show ?thesis
    unfolding per_image_boxlist_def remove_small_boxes_def by (rule exI)
qed

lemma forward_for_single_feature_map_type_error:
  assumes sv: "tensor_saver w \<noteq> None"
    and rows: "\<forall>r \<in> set (logits t). length r = dim_A t * dim_H t * dim_W t"
    and reg: "length box_regression = length (logits t)"
      "\<forall>r \<in> set box_regression. length r = dim_A t * dim_H t * dim_W t"
    and anc: "length anchors = length (logits t)"
      "\<forall>a \<in> set anchors. len a = dim_A t * dim_H t * dim_W t"
    and n2: "2 \<le> length (logits t)"
  shows "fst (forward_for_single_feature_map self ext anchors t box_regression level w)
     = Inl TypeError"
proof -
  let ?N = "length (logits t)"
  from n2 have ne: "0 < ?N" by linarith
  from gather_and_decode [OF rows reg anc ne, of self "sigmoid ext" "decode1 ext"]
  obtain scores idx ds as props where
    p: "prefilter self (sigmoid ext) t = Inr (scores, idx)" and
    g: "gather_for_decode ?N anchors box_regression idx = Inr (ds, as)" and
    ri: "\<forall>i < ?N. scores ! i = map (\<lambda>j. sigmoid ext (logits t ! i ! j)) (idx ! i)" and
    v: "view_rows ?N (decode (decode1 ext) (concat ds) (concat as)) = Inr props" and
    pr: "props = map (\<lambda>i. map (\<lambda>j. decode1 ext (box_regression ! i ! j) (bbox (anchors ! i) ! j))
                              (idx ! i)) [0..<?N]"
    by blast
  from prefilter_ok [OF rows, of self "sigmoid ext"] p
  have ls: "length scores = ?N" and li: "length idx = ?N" by auto
  let ?w1 = "snd (dump_topk_idx level idx w)"
  have d1: "fst (dump_topk_idx level idx w) = Inr ()"
    using n2 li by (simp add: dump_topk_idx_cases [OF sv])
  have s1: "tensor_saver ?w1 \<noteq> None" using sv by (simp add: dump_topk_idx_keeps_saver)
  let ?w2 = "snd (decode_proposals (decode1 ext) ?N ds as ?w1)"
  have d2: "fst (decode_proposals (decode1 ext) ?N ds as ?w1) = Inr props"
    using decode_proposals_ok(1) [OF s1] v by simp
  have s2: "tensor_saver ?w2 \<noteq> None" using s1 by (simp add: decode_proposals_ok(2))
  let ?w3 = "snd (dump_after_decode level props ?w2)"
  from dump_after_decode_ok [OF s2] obtain us where
    d3: "fst (dump_after_decode level props ?w2) = Inr us" by blast
  have s3: "tensor_saver ?w3 \<noteq> None" using s2 by (simp add: dump_after_decode_keeps_saver)
  let ?items = "enumerate 0 (zip props (zip scores (map image_size anchors)))"
  have lp: "length props = ?N" by (simp add: pr)
  have "?items \<noteq> []" using lp ls anc(1) ne by (cases props; cases scores; cases anchors) auto
  then obtain x xs where items: "?items = x # xs" by (cases ?items) auto
  have x: "x = (0, props ! 0, scores ! 0, image_size (anchors ! 0))"
  proof -
    have "0 < length ?items" using items by simp
    then have "?items ! 0 = (0, props ! 0, scores ! 0, image_size (anchors ! 0))"
      using lp ls anc(1) ne by (simp add: nth_enumerate_eq)
    with items show ?thesis by simp
  qed
  have "length (scores ! 0) = length (props ! 0)"
    using ri ne by (simp add: pr)
  from per_image_boxlist_ok [OF this] obtain bl where
    "per_image_boxlist self (props ! 0) (scores ! 0) (image_size (anchors ! 0)) = Inr bl" by blast
  from per_image_fails [OF s3 this]
  have "fst (per_image self ext level x ?w3) = Inl TypeError" by (simp add: x)
  then have d4: "fst (mapM_io (per_image self ext level) ?items ?w3) = Inl TypeError"
    unfolding items by (rule mapM_io_first_fails)
  show ?thesis
    unfolding forward_for_single_feature_map_def Let_def
    by (simp add: fst_bind_io snd_bind_io lift_io_def p g d1 d2 d3 d4)
qed


lemma example_shapes:
  "(\<forall>r \<in> set (logits example_objectness). length r
      = dim_A example_objectness * dim_H example_objectness * dim_W example_objectness)
   \<and> length example_regression = length (logits example_objectness)
   \<and> (\<forall>r \<in> set example_regression. length r
      = dim_A example_objectness * dim_H example_objectness * dim_W example_objectness)
   \<and> length example_anchors = length (logits example_objectness)
   \<and> (\<forall>a \<in> set example_anchors. len a
      = dim_A example_objectness * dim_H example_objectness * dim_W example_objectness)
   \<and> 2 \<le> length (logits example_objectness)"
  by (simp add: example_objectness_def example_regression_def example_anchors_def len_def)

text \<open>
  C9: \<open>create_tensor_saver\<close> accepts exactly \<open>base_dir\<close> and \<open>iteration\<close>, and
  \<open>TensorSaver.save\<close> exactly \<open>tensor\<close>, \<open>tensor_name\<close>, \<open>scope\<close> and \<open>save_grad\<close>
  (the first conjuncts characterise the keyword calls that bind).  A call with any other
  keyword raises \<open>TypeError\<close> and leaves the state as it was, so nothing is written by
  it: the call of \<open>do_train\<close>, the call of \<open>inference\<close> (both pass \<open>training\<close> and
  \<open>max_iter\<close>) and the first dump of the decoder's loop body (which passes \<open>level\<close> and
  \<open>im_idx\<close>).  So with a saver created the decoder itself, on well-shaped inputs of at
  least two images, ends in that \<open>TypeError\<close> in the first round of its loop.
\<close>

theorem unexpected_keyword_raises:
  "(bind_args create_params 1 0 kws = Inr () \<longleftrightarrow>
      distinct kws \<and> set kws \<subseteq> {''base_dir'', ''iteration''} \<and> ''base_dir'' \<in> set kws)
   \<and> (bind_args save_params 2 0 kws = Inr () \<longleftrightarrow>
      distinct kws \<and> set kws \<subseteq> {''tensor'', ''tensor_name'', ''scope'', ''save_grad''}
      \<and> {''tensor'', ''tensor_name''} \<subseteq> set kws)
   \<and> ((\<exists>k \<in> set kws. k \<notin> {''base_dir'', ''iteration''}) \<longrightarrow>
        create_tensor_saver npos kws d i w = (Inl TypeError, w))
   \<and> ((\<exists>k \<in> set kws. k \<notin> {''tensor'', ''tensor_name'', ''scope'', ''save_grad''})
        \<and> tensor_saver w \<noteq> None \<longrightarrow>
        saver_save (Inr shape) npos kws name scope w = (Inl TypeError, w))
   \<and> do_train start_iter rest w = (Inl TypeError, w)
   \<and> inference rest w = (Inl TypeError, w)
   \<and> (tensor_saver w \<noteq> None \<and> per_image_boxlist self proposal score im_shape = Inr bl \<longrightarrow>
        per_image self ext level (im_i, proposal, score, im_shape) w = (Inl TypeError, w))
   \<and> (tensor_saver w \<noteq> None
        \<and> (\<forall>r \<in> set (logits t). length r = dim_A t * dim_H t * dim_W t)
        \<and> length box_regression = length (logits t)
        \<and> (\<forall>r \<in> set box_regression. length r = dim_A t * dim_H t * dim_W t)
        \<and> length anchors = length (logits t)
        \<and> (\<forall>a \<in> set anchors. len a = dim_A t * dim_H t * dim_W t)
        \<and> 2 \<le> length (logits t) \<longrightarrow>
        fst (forward_for_single_feature_map self ext anchors t box_regression level w)
          = Inl TypeError)"
proof -
  have a: "bind_args create_params 1 0 kws = Inr () \<longleftrightarrow>
      distinct kws \<and> set kws \<subseteq> {''base_dir'', ''iteration''} \<and> ''base_dir'' \<in> set kws"
    unfolding bind_args_kw_only by (simp add: create_params_def)
  have b: "bind_args save_params 2 0 kws = Inr () \<longleftrightarrow>
      distinct kws \<and> set kws \<subseteq> {''tensor'', ''tensor_name'', ''scope'', ''save_grad''}
      \<and> {''tensor'', ''tensor_name''} \<subseteq> set kws"
    unfolding bind_args_kw_only by (simp add: save_params_def numeral_2_eq_2)
  have c: "(\<exists>k \<in> set kws. k \<notin> {''base_dir'', ''iteration''}) \<longrightarrow>
        create_tensor_saver npos kws d i w = (Inl TypeError, w)"
    using create_unexpected [of kws npos d i w] by (simp add: create_params_def)
  have e: "(\<exists>k \<in> set kws. k \<notin> {''tensor'', ''tensor_name'', ''scope'', ''save_grad''})
        \<and> tensor_saver w \<noteq> None \<longrightarrow>
        saver_save (Inr shape) npos kws name scope w = (Inl TypeError, w)"
    using save_unexpected [of kws w shape npos name scope] by (simp add: save_params_def)
  have f: "tensor_saver w \<noteq> None \<and> per_image_boxlist self proposal score im_shape = Inr bl \<longrightarrow>
        per_image self ext level (im_i, proposal, score, im_shape) w = (Inl TypeError, w)"
    using per_image_fails [of w self proposal score im_shape bl ext level im_i] by simp
  have g: "tensor_saver w \<noteq> None
        \<and> (\<forall>r \<in> set (logits t). length r = dim_A t * dim_H t * dim_W t)
        \<and> length box_regression = length (logits t)
        \<and> (\<forall>r \<in> set box_regression. length r = dim_A t * dim_H t * dim_W t)
        \<and> length anchors = length (logits t)
        \<and> (\<forall>a \<in> set anchors. len a = dim_A t * dim_H t * dim_W t)
        \<and> 2 \<le> length (logits t) \<longrightarrow>
        fst (forward_for_single_feature_map self ext anchors t box_regression level w)
          = Inl TypeError"
    using forward_for_single_feature_map_type_error [of w t box_regression anchors self ext level]
    by blast
  show ?thesis
    by (intro conjI a b c e f g do_train_fails inference_fails)
qed



theorem unexpected_keyword_raises_witness:
  "create_tensor_saver 0 [''training'', ''base_dir'', ''iteration'', ''max_iter'']
       ''train_dump'' 0 example_world = (Inl TypeError, example_world)
   \<and> saver_save (Inr [1, 4]) 0 [''training'', ''base_dir'', ''iteration'', ''max_iter'']
       ''image'' None example_world = (Inl TypeError, example_world)
   \<and> do_train 0 (return_io ()) example_world = (Inl TypeError, example_world)
   \<and> inference (return_io ()) example_world = (Inl TypeError, example_world)
   \<and> per_image example_processor example_ops 1
        (0, [(0, 0, 3, 3), (1, 1, 3/2, 4)], [9/10, 8/10], (10, 10)) example_world
       = (Inl TypeError, example_world)
   \<and> fst (forward_for_single_feature_map example_processor example_ops example_anchors
            example_objectness example_regression 1 example_world) = Inl TypeError"
  using example_per_image_boxlist example_shapes unexpected_keyword_raises
      [where kws = "[''training'', ''base_dir'', ''iteration'', ''max_iter'']"
         and npos = 0 and d = "''train_dump''" and i = 0 and w = example_world
         and shape = "[1, 4]" and name = "''image''" and scope = None
         and start_iter = 0 and rest = "return_io ()"
         and self = example_processor
         and proposal = "[(0, 0, 3, 3), (1, 1, 3/2, 4)]" and score = "[9/10, 8/10]"
         and im_shape = "(10, 10)" and ext = example_ops and level = 1 and im_i = 0
         and t = example_objectness and box_regression = example_regression
         and anchors = example_anchors
         and bl = "\<lparr>bbox = [(0, 0, 3, 3)], image_size = (10, 10), mode = ''xyxy'',
          extra_fields = [(''objectness'', [9/10])]\<rparr>"]
  by (simp add: example_world_def)

end
